theory Spec2Isabelle
  imports Main "HOL-Library.AList" "HOL-Library.List_Lexorder" "HOL-Library.Char_ord"
begin

section \<open>Exceptions\<close>

text \<open>
  Every \<^verbatim>\<open>raise\<close> of the library and every exception of the Python runtime that the
  modelled code can meet is a value of \<open>error\<close>; a function that can raise returns
  \<open>error + 'a\<close> with \<open>Inl\<close> for the exception.
\<close>

datatype error = IndexError | KeyError | TypeError | AttributeError | ValueError | AutomatonError

definition bind_err :: "error + 'a \<Rightarrow> ('a \<Rightarrow> error + 'b) \<Rightarrow> error + 'b" where
  "bind_err m f = (case m of Inl e \<Rightarrow> Inl e | Inr x \<Rightarrow> f x)"

text \<open>A list comprehension whose element expression can raise: the first exception wins.\<close>

fun collect :: "(error + 'a) list \<Rightarrow> error + 'a list" where
  "collect [] = Inr []"
| "collect (x # xs) =
     (case x of Inl e \<Rightarrow> Inl e
      | Inr v \<Rightarrow> (case collect xs of Inl e \<Rightarrow> Inl e | Inr vs \<Rightarrow> Inr (v # vs)))"

text \<open>Python list indexing with an \<^verbatim>\<open>int\<close>: negative indices count from the end.\<close>

definition py_index :: "'a list \<Rightarrow> int \<Rightarrow> error + nat" where
  "py_index xs i =
     (let n = int (length xs) in
      if 0 \<le> i \<and> i < n then Inr (nat i)
      else if - n \<le> i \<and> i < 0 then Inr (nat (n + i))
      else Inl IndexError)"

section \<open>automata.py: helper functions\<close>

definition EPSILON :: string where
  "EPSILON = [CHR 0x27, CHR ''e'']"

definition DOT :: string where
  "DOT = ''dot''"

definition flatten_lists :: "'a list list \<Rightarrow> 'a list" where
  "flatten_lists ls = concat ls"

definition set_union :: "'a set list \<Rightarrow> 'a set" where
  "set_union ss = \<Union> (set ss)"

section \<open>automata.py: look-up tables\<close>

text \<open>
  The default of a row is either a value or a callable that constructs the value
  (\<^verbatim>\<open>callable(self.default)\<close>). A dict is an association list with distinct keys, in
  insertion order.
\<close>

datatype 'v default_value = Value 'v | Callable "unit \<Rightarrow> 'v"

record ('k, 'v) TableRow =
  data :: "('k \<times> 'v) list"
  default_value :: "'v default_value"

definition TableRow_init :: "('k \<times> 'v) list \<Rightarrow> 'v default_value \<Rightarrow> ('k, 'v) TableRow" where
  "TableRow_init d dflt = \<lparr>data = d, default_value = dflt\<rparr>"

definition return_default :: "('k, 'v) TableRow \<Rightarrow> 'v" where
  "return_default r = (case default_value r of Callable f \<Rightarrow> f () | Value v \<Rightarrow> v)"

definition TableRow_getitem :: "('k, 'v) TableRow \<Rightarrow> 'k \<Rightarrow> 'v" where
  "TableRow_getitem r item =
     (case map_of (data r) item of Some v \<Rightarrow> v | None \<Rightarrow> return_default r)"

definition TableRow_setitem :: "('k, 'v) TableRow \<Rightarrow> 'k \<Rightarrow> 'v \<Rightarrow> ('k, 'v) TableRow" where
  "TableRow_setitem r item v = r\<lparr>data := AList.update item v (data r)\<rparr>"

definition TableRow_columns :: "('k::linorder, 'v) TableRow \<Rightarrow> 'k list" where
  "TableRow_columns r = sort (map fst (data r))"

definition TableRow_map :: "('v \<Rightarrow> 'v) \<Rightarrow> ('k, 'v) TableRow \<Rightarrow> ('k, 'v) TableRow" where
  "TableRow_map func r =
     TableRow_init (map (\<lambda>(k, v). (k, func v)) (data r)) (default_value r)"

text \<open>
  \<^verbatim>\<open>TableRow\<close> defines no \<^verbatim>\<open>__eq__\<close>, so \<^verbatim>\<open>==\<close> on rows is the comparison that every
  Python object inherits: identity. Row objects live in a store and are referred to by
  their address; \<^verbatim>\<open>TableRow(data, default)\<close> allocates a new object.
\<close>

definition TableRow_new ::
  "('k, 'v) TableRow list \<Rightarrow> ('k \<times> 'v) list \<Rightarrow> 'v default_value \<Rightarrow> nat \<times> ('k, 'v) TableRow list" where
  "TableRow_new store d dflt = (length store, store @ [TableRow_init d dflt])"

definition TableRow_eq :: "nat \<Rightarrow> nat \<Rightarrow> bool" where
  "TableRow_eq this other = (this = other)"

record ('k, 'v) Table =
  rows :: "('k, 'v) TableRow list"
  table_default :: "'v default_value"

text \<open>
  \<^verbatim>\<open>Table.__init__\<close> with \<^verbatim>\<open>_process_data\<close>: each given row (a dict, or a
  \<^verbatim>\<open>TableRow\<close> of which only the data is kept) becomes a row with the table's default.
\<close>

definition Table_init :: "('k \<times> 'v) list list \<Rightarrow> 'v default_value \<Rightarrow> ('k, 'v) Table" where
  "Table_init ds dflt = \<lparr>rows = map (\<lambda>d. TableRow_init d dflt) ds, table_default = dflt\<rparr>"

definition Table_len :: "('k, 'v) Table \<Rightarrow> nat" where
  "Table_len t = length (rows t)"

definition Table_columns :: "('k::linorder, 'v) Table \<Rightarrow> 'k list" where
  "Table_columns t = sorted_list_of_set (set_union (map (\<lambda>r. set (TableRow_columns r)) (rows t)))"

definition Table_final :: "('k, 'v) Table \<Rightarrow> int" where
  "Table_final t = int (Table_len t) - 1"

definition with_empty_row :: "'v default_value \<Rightarrow> ('k, 'v) Table" where
  "with_empty_row dflt = Table_init [[]] dflt"

definition Table_map :: "('v \<Rightarrow> 'v) \<Rightarrow> ('k, 'v) Table \<Rightarrow> ('k, 'v) Table" where
  "Table_map func t = Table_init (map (\<lambda>r. data (TableRow_map func r)) (rows t)) (table_default t)"

definition as_list :: "('k, 'v) Table \<Rightarrow> ('k \<times> 'v) list list" where
  "as_list t = map data (rows t)"

text \<open>\<^verbatim>\<open>table[i][item] = value\<close>: the row is found by Python indexing and updated in place.\<close>

definition Table_setcell ::
  "('k, 'v) Table \<Rightarrow> int \<Rightarrow> 'k \<Rightarrow> 'v \<Rightarrow> error + ('k, 'v) Table" where
  "Table_setcell t i item v =
     (case py_index (rows t) i of
        Inl e \<Rightarrow> Inl e
      | Inr j \<Rightarrow> Inr (t\<lparr>rows := (rows t)[j := TableRow_setitem (rows t ! j) item v]\<rparr>))"

section \<open>automata.py: NFA\<close>

text \<open>
  States are row indices. A cell holds a set of states; the tables of an NFA have the
  default \<^verbatim>\<open>set\<close>, a callable that constructs the empty set.
\<close>

type_synonym nfa_table = "(string, nat set) Table"

definition set_default :: "nat set default_value" where
  "set_default = Callable (\<lambda>_. {})"

record Nfa =
  table :: nfa_table
  closure_cache :: "nat set list"

definition Nfa_len :: "Nfa \<Rightarrow> nat" where
  "Nfa_len nfa = Table_len (table nfa)"

text \<open>
  \<^verbatim>\<open>iter_search\<close>, the local function of \<^verbatim>\<open>_find_epsilon_closure\<close>. Reading the row
  of a state that is no row index raises IndexError. The function calls itself once for
  every level of the search; the interpreter's limit on the depth of recursion is not
  part of the model.
\<close>

function iter_search :: "nfa_table \<Rightarrow> nat set \<Rightarrow> nat set \<Rightarrow> error + nat set" where
  "iter_search tab states update =
     (if update = {} then Inr states
      else let update1 = update - states; states1 = states \<union> update1 in
        if \<exists>u\<in>update1. Table_len tab \<le> u then Inl IndexError
        else iter_search tab states1
               ((\<Union>u\<in>update1. TableRow_getitem (rows tab ! u) EPSILON) - states1))"
  by pat_completeness auto
termination
proof (relation "measures [\<lambda>(tab, states, update). card ({0..<Table_len tab} - states),
                            \<lambda>(tab, states, update). if update = {} then 0 else 1]", goal_cases)
  case 1
  show ?case by simp
next
  case (2 tab states update update1 states1)
  show ?case
  proof (cases "update1 = {}")
    case True
    with 2 show ?thesis by auto
  next
    case False
    then obtain u where "u \<in> update1" by auto
    with 2 have "u < Table_len tab" "u \<notin> states" "u \<in> states1" by (auto simp: not_le)
    then have "{0..<Table_len tab} - states1 \<subset> {0..<Table_len tab} - states"
      using 2 by auto
    then have "card ({0..<Table_len tab} - states1) < card ({0..<Table_len tab} - states)"
      by (intro psubset_card_mono) auto
    then show ?thesis by simp
  qed
qed

definition find_epsilon_closure :: "nfa_table \<Rightarrow> nat \<Rightarrow> error + nat set" where
  "find_epsilon_closure tab state =
     (if Table_len tab \<le> state then Inl IndexError
      else iter_search tab {state} (TableRow_getitem (rows tab ! state) EPSILON))"

text \<open>\<^verbatim>\<open>Nfa.__init__\<close> on a table: the closure of every state is computed once.\<close>

definition Nfa_init :: "nfa_table \<Rightarrow> error + Nfa" where
  "Nfa_init tab =
     (case collect (map (find_epsilon_closure tab) [0..<Table_len tab]) of
        Inl e \<Rightarrow> Inl e
      | Inr cl \<Rightarrow> Inr \<lparr>table = tab, closure_cache = cl\<rparr>)"

text \<open>
  \<^verbatim>\<open>offsets = [0] + [sum(lengths[:i + 1]) for i in range(len(tables) - 1)]\<close> and the
  shifted copies of \<^verbatim>\<open>_concat_tables\<close>; \<^verbatim>\<open>tables[0]\<close> raises IndexError without tables.
\<close>

definition offsets_of :: "nat list \<Rightarrow> nat list" where
  "offsets_of lengths =
     0 # map (\<lambda>i. sum_list (take (i + 1) lengths)) [0..<length lengths - 1]"

definition concat_tables :: "nfa_table list \<Rightarrow> error + (nfa_table \<times> nat list)" where
  "concat_tables tables =
     (case tables of
        [] \<Rightarrow> Inl IndexError
      | t0 # _ \<Rightarrow>
          let dflt = table_default t0;
              lengths = map Table_len tables;
              offsets = offsets_of lengths;
              shifted = map (\<lambda>(tab, i). Table_map (\<lambda>x. (\<lambda>elem. elem + i) ` x) tab)
                            (zip tables offsets)
          in Inr (Table_init (map data (concat (map rows shifted))) dflt, offsets))"

text \<open>\<^verbatim>\<open>epsilon_closure\<close> of one state (an \<^verbatim>\<open>int\<close>) and of a collection of states.\<close>

definition epsilon_closure_state :: "Nfa \<Rightarrow> nat \<Rightarrow> error + nat set" where
  "epsilon_closure_state nfa state =
     (if length (closure_cache nfa) \<le> state then Inl IndexError
      else Inr (closure_cache nfa ! state))"

definition epsilon_closure :: "Nfa \<Rightarrow> nat set \<Rightarrow> error + nat set" where
  "epsilon_closure nfa states =
     (if \<exists>state\<in>states. length (closure_cache nfa) \<le> state then Inl IndexError
      else Inr (\<Union>state\<in>states. closure_cache nfa ! state))"

definition Nfa_final :: "Nfa \<Rightarrow> int" where
  "Nfa_final nfa = int (Nfa_len nfa) - 1"

definition get_input_characters :: "Nfa \<Rightarrow> nat set \<Rightarrow> error + string set" where
  "get_input_characters nfa states =
     (if \<exists>state\<in>states. Nfa_len nfa \<le> state then Inl IndexError
      else Inr ((\<Union>state\<in>states. set (TableRow_columns (rows (table nfa) ! state))) - {EPSILON}))"

definition is_final :: "Nfa \<Rightarrow> nat set \<Rightarrow> bool" where
  "is_final nfa states = (Nfa_final nfa \<in> int ` states)"

definition transition :: "Nfa \<Rightarrow> nat set \<Rightarrow> string \<Rightarrow> error + nat set" where
  "transition nfa states char =
     bind_err (epsilon_closure nfa states) (\<lambda>start.
       if \<exists>state\<in>start. Nfa_len nfa \<le> state then Inl IndexError
       else epsilon_closure nfa
              (\<Union>state\<in>start. TableRow_getitem (rows (table nfa) ! state) char))"

text \<open>
  \<^verbatim>\<open>Nfa.match\<close>: the loop over the characters of the string, started on \<open>{0}\<close>. A
  character of a Python string is a string of length one, the key of its column.
\<close>

fun match_loop :: "Nfa \<Rightarrow> nat set \<Rightarrow> string \<Rightarrow> error + bool" where
  "match_loop nfa states [] = Inr (is_final nfa states)"
| "match_loop nfa states (c # cs) =
     bind_err (transition nfa states [c]) (\<lambda>states'.
       if states' = {} then Inr False else match_loop nfa states' cs)"

definition Nfa_match :: "Nfa \<Rightarrow> string \<Rightarrow> error + bool" where
  "Nfa_match nfa string = match_loop nfa {0} string"

definition Nfa_epsilon :: "error + Nfa" where
  "Nfa_epsilon = Nfa_init (Table_init [[(EPSILON, {1})], []] set_default)"

definition Nfa_char :: "string \<Rightarrow> error + Nfa" where
  "Nfa_char char = Nfa_init (Table_init [[(char, {1})], []] set_default)"

text \<open>The loops \<^verbatim>\<open>for offset in offsets[..]: table[offset - 1][EPSILON] = {..}\<close>.\<close>

fun link_rows :: "nfa_table \<Rightarrow> nat list \<Rightarrow> (nat \<Rightarrow> nat set) \<Rightarrow> error + nfa_table" where
  "link_rows tab [] target = Inr tab"
| "link_rows tab (offset # offsets) target =
     bind_err (Table_setcell tab (int offset - 1) EPSILON (target offset))
       (\<lambda>tab'. link_rows tab' offsets target)"

definition Nfa_concat :: "Nfa list \<Rightarrow> error + Nfa" where
  "Nfa_concat nfas =
     bind_err (concat_tables (map table nfas)) (\<lambda>(tab, offsets).
     bind_err (link_rows tab (drop 1 offsets) (\<lambda>offset. {offset})) Nfa_init)"

definition Nfa_union :: "Nfa list \<Rightarrow> error + Nfa" where
  "Nfa_union nfas =
     bind_err (concat_tables
                 ([with_empty_row set_default] @ map table nfas @ [with_empty_row set_default]))
       (\<lambda>(tab, offsets).
     bind_err (Table_setcell tab 0 EPSILON (set (butlast (drop 1 offsets)))) (\<lambda>tab1.
     bind_err (link_rows tab1 (drop 2 offsets) (\<lambda>offset. {nat (Table_final tab1)})) Nfa_init))"

definition Nfa_star :: "Nfa \<Rightarrow> error + Nfa" where
  "Nfa_star nfa =
     bind_err (concat_tables [with_empty_row set_default, table nfa, with_empty_row set_default])
       (\<lambda>(tab, offsets).
     bind_err (Table_setcell tab 0 EPSILON {1, nat (Table_final tab)}) (\<lambda>tab1.
     bind_err (Table_setcell tab1 (Table_final tab1 - 1) EPSILON {0, nat (Table_final tab1)})
       Nfa_init))"

text \<open>The NFAs that the combinators build, nested to any depth.\<close>

inductive built :: "Nfa \<Rightarrow> bool" where
  built_epsilon: "Nfa_epsilon = Inr n \<Longrightarrow> built n"
| built_char: "Nfa_char c = Inr n \<Longrightarrow> built n"
| built_concat: "\<forall>m\<in>set ms. built m \<Longrightarrow> Nfa_concat ms = Inr n \<Longrightarrow> built n"
| built_union: "\<forall>m\<in>set ms. built m \<Longrightarrow> Nfa_union ms = Inr n \<Longrightarrow> built n"
| built_star: "built m \<Longrightarrow> Nfa_star m = Inr n \<Longrightarrow> built n"

section \<open>char_stream.py: the lexer\<close>

record Token =
  category :: string
  lexeme :: string

text \<open>\<^verbatim>\<open>Token.__init__(category, lexeme=None)\<close>: a missing lexeme is the category.\<close>

definition Token_init :: "string \<Rightarrow> string option \<Rightarrow> Token" where
  "Token_init cat lx = \<lparr>category = cat, lexeme = (case lx of None \<Rightarrow> cat | Some l \<Rightarrow> l)\<rparr>"

record CharacterStream =
  admissible_characters :: "char set"
  special_characters :: "char set"
  escape_character :: string
  general_class :: string

text \<open>
  \<^verbatim>\<open>CharacterStream.__init__\<close>: \<^verbatim>\<open>_character_set\<close> turns a missing argument (None) into an
  empty collection and a string into the set of its characters.
\<close>

definition character_set :: "string option \<Rightarrow> char set" where
  "character_set characters = (case characters of None \<Rightarrow> {} | Some cs \<Rightarrow> set cs)"

definition CharacterStream_init ::
  "string option \<Rightarrow> string option \<Rightarrow> string \<Rightarrow> string \<Rightarrow> CharacterStream" where
  "CharacterStream_init admissible special escape general =
     \<lparr>admissible_characters = character_set admissible,
      special_characters = character_set special,
      escape_character = escape,
      general_class = general\<rparr>"

text \<open>
  \<^verbatim>\<open>tokenize\<close>: the loop over the characters with the token list built so far. A
  character equal to the escape character is skipped by \<^verbatim>\<open>continue\<close>; nothing is
  remembered about it when the next character is read.
\<close>

fun tokenize_loop :: "CharacterStream \<Rightarrow> string \<Rightarrow> Token list \<Rightarrow> error + Token list" where
  "tokenize_loop cs [] toks = Inr toks"
| "tokenize_loop cs (c # rest) toks =
     (if [c] = escape_character cs then tokenize_loop cs rest toks
      else if admissible_characters cs \<noteq> {} \<and> c \<notin> admissible_characters cs then Inl ValueError
      else if c \<notin> special_characters cs
        then tokenize_loop cs rest (toks @ [Token_init (general_class cs) (Some [c])])
      else tokenize_loop cs rest (toks @ [Token_init [c] None]))"

definition tokenize :: "CharacterStream \<Rightarrow> string \<Rightarrow> error + Token list" where
  "tokenize cs string = tokenize_loop cs string []"

section \<open>grammar.py\<close>

text \<open>
  A production element is a terminal, a reference to a non-terminal object, an epsilon,
  an action or any other object. Non-terminal objects are referred to by an address; the
  productions bound to them are read through the grammar (\<open>productions_of\<close>). Values
  handed to reduction functions are lexemes (strings) or objects made by the user's
  functions.
\<close>

datatype element = Terminal string | NonTerminal nat | Epsilon | Action | Other

datatype 'u pyvalue = Str string | Obj 'u

record 'u Return =
  func :: "'u pyvalue list \<Rightarrow> error + 'u pyvalue"
  args :: "int list option"

record 'u Production =
  elements :: "element list"
  return_value :: "'u Return option"

record 'u Grammar =
  non_terminals :: "nat list"
  productions_of :: "nat \<Rightarrow> 'u Production list"

text \<open>\<^verbatim>\<open>grammar[0]\<close>: the first non-terminal, IndexError when there is none.\<close>

definition Grammar_first :: "'u Grammar \<Rightarrow> error + nat" where
  "Grammar_first g = (case non_terminals g of [] \<Rightarrow> Inl IndexError | n # _ \<Rightarrow> Inr n)"

section \<open>parse_tree.py\<close>

datatype 'u tree =
  Leaf string "Token option"
| Node "'u Production" "'u tree list"
| ActionChild

text \<open>
  \<^verbatim>\<open>_build_tree\<close> with \<^verbatim>\<open>set_from_production\<close>: the node at the cursor \<open>i\<close> takes
  \<^verbatim>\<open>productions[i]\<close>, gets one child for each terminal, non-terminal and action of the
  production, and every child that is a node is built in turn from the advanced cursor.
  The result is the built node and the cursor after it.
\<close>

function build_tree :: "'u Production list \<Rightarrow> nat \<Rightarrow> error + ('u tree \<times> nat)"
  and build_children ::
    "'u Production list \<Rightarrow> element list \<Rightarrow> nat \<Rightarrow> error + ('u tree list \<times> nat)" where
  "build_tree productions i =
     (if length productions \<le> i then Inl IndexError
      else case build_children productions (elements (productions ! i)) (i + 1) of
             Inl e \<Rightarrow> Inl e
           | Inr (children, i') \<Rightarrow> Inr (Node (productions ! i) children, i'))"
| "build_children productions [] i = Inr ([], i)"
| "build_children productions (Terminal name # es) i =
     (case build_children productions es i of
        Inl e \<Rightarrow> Inl e
      | Inr (cs, i') \<Rightarrow> Inr (Leaf name None # cs, i'))"
| "build_children productions (NonTerminal N # es) i =
     (case build_tree productions i of
        Inl e \<Rightarrow> Inl e
      | Inr (c, i1) \<Rightarrow>
          (case build_children productions es i1 of
             Inl e \<Rightarrow> Inl e
           | Inr (cs, i') \<Rightarrow> Inr (c # cs, i')))"
| "build_children productions (Action # es) i =
     (case build_children productions es i of
        Inl e \<Rightarrow> Inl e
      | Inr (cs, i') \<Rightarrow> Inr (ActionChild # cs, i'))"
| "build_children productions (Epsilon # es) i = build_children productions es i"
| "build_children productions (Other # es) i = build_children productions es i"
  by pat_completeness auto

text \<open>The cursor never moves back: this is what bounds the recursion of the later siblings.\<close>

lemma build_cursor_mono:
  "build_tree_build_children_dom (Inl (ps, i)) \<Longrightarrow> build_tree ps i = Inr (t, i') \<Longrightarrow> i \<le> i'"
  "build_tree_build_children_dom (Inr (ps, es, i)) \<Longrightarrow> build_children ps es i = Inr (ts, i') \<Longrightarrow> i \<le> i'"
proof (induction ps i and ps es i arbitrary: t i' and ts i' rule: build_tree_build_children.pinduct)
  case (1 productions i)
  then show ?case
    by (fastforce simp: build_tree.psimps split: if_splits sum.splits prod.splits)
next
  case (2 productions i)
  then show ?case by (simp add: build_children.psimps)
next
  case (3 productions name es i)
  then show ?case by (auto simp: build_children.psimps split: sum.splits prod.splits)
next
  case (4 productions N es i)
  then show ?case
    by (fastforce simp: build_children.psimps split: sum.splits prod.splits)
next
  case (5 productions es i)
  then show ?case by (auto simp: build_children.psimps split: sum.splits prod.splits)
next
  case (6 productions es i)
  then show ?case by (auto simp: build_children.psimps split: sum.splits prod.splits)
next
  case (7 productions es i)
  then show ?case by (auto simp: build_children.psimps split: sum.splits prod.splits)
qed

termination build_tree
proof (relation "measures [\<lambda>x. case x of Inl (ps, i) \<Rightarrow> length ps - i | Inr (ps, es, i) \<Rightarrow> length ps - i,
    \<lambda>x. case x of Inl (ps, i) \<Rightarrow> 0 | Inr (ps, es, i) \<Rightarrow> Suc (length es)]", goal_cases)
  case (5 productions N es i x2 x y)
  then have "i \<le> y" using build_cursor_mono(1)[of productions i x y] by simp
  then show ?case by auto
qed auto

text \<open>
  \<^verbatim>\<open>_find_leaves\<close>: the leaves in the order of the pre-order walk. \<^verbatim>\<open>_add_tokens\<close> zips
  that list with the tokens and stores each token in its leaf object; here the tokens are
  handed out along the same walk, and the tokens left over are returned.
\<close>

fun find_leaves :: "'u tree \<Rightarrow> 'u tree list" where
  "find_leaves (Leaf name tok) = [Leaf name tok]"
| "find_leaves (Node p children) = concat (map find_leaves children)"
| "find_leaves ActionChild = []"

fun add_tokens :: "'u tree \<Rightarrow> Token list \<Rightarrow> 'u tree \<times> Token list"
  and add_tokens_children :: "'u tree list \<Rightarrow> Token list \<Rightarrow> 'u tree list \<times> Token list" where
  "add_tokens (Leaf name tok) [] = (Leaf name tok, [])"
| "add_tokens (Leaf name tok) (t # ts) = (Leaf name (Some t), ts)"
| "add_tokens (Node p children) ts =
     (case add_tokens_children children ts of (children', ts') \<Rightarrow> (Node p children', ts'))"
| "add_tokens ActionChild ts = (ActionChild, ts)"
| "add_tokens_children [] ts = ([], ts)"
| "add_tokens_children (c # cs) ts =
     (case add_tokens c ts of (c', ts') \<Rightarrow>
        (case add_tokens_children cs ts' of (cs', ts'') \<Rightarrow> (c' # cs', ts'')))"

text \<open>\<^verbatim>\<open>_this\<close>, the default action: called with other than one argument it raises TypeError.\<close>

fun this :: "'u pyvalue list \<Rightarrow> error + 'u pyvalue" where
  "this [x] = Inr x"
| "this _ = Inl TypeError"

definition py_getitem :: "'a list \<Rightarrow> int \<Rightarrow> error + 'a" where
  "py_getitem xs i = (case py_index xs i of Inl e \<Rightarrow> Inl e | Inr j \<Rightarrow> Inr (xs ! j))"

text \<open>
  \<^verbatim>\<open>_return_value\<close>: a leaf yields the lexeme of its token (AttributeError when no token
  was attached), a node the action applied to the values of its children, selected by the
  indices of the descriptor when it has some.
\<close>

fun tree_return_value :: "'u tree \<Rightarrow> error + 'u pyvalue" where
  "tree_return_value (Leaf name tok) =
     (case tok of None \<Rightarrow> Inl AttributeError | Some t \<Rightarrow> Inr (Str (lexeme t)))"
| "tree_return_value (Node p children) =
     (let action = (case return_value p of Some r \<Rightarrow> func r | None \<Rightarrow> this) in
      case collect (map tree_return_value children) of
        Inl e \<Rightarrow> Inl e
      | Inr vals \<Rightarrow>
          (case (case return_value p of
                   None \<Rightarrow> Inr vals
                 | Some r \<Rightarrow> (case args r of
                                 None \<Rightarrow> Inr vals
                               | Some indices \<Rightarrow> collect (map (py_getitem vals) indices))) of
             Inl e \<Rightarrow> Inl e
           | Inr vals' \<Rightarrow> action vals'))"
| "tree_return_value ActionChild = Inl TypeError"

record 'u ParseTree =
  root :: "'u tree"
  leaves :: "'u tree list"
  tree_value :: "'u pyvalue option"

text \<open>
  \<^verbatim>\<open>ParseTree.__init__\<close>. The return value is computed only when the production of the
  root carries a descriptor; otherwise it is None.
\<close>

definition ParseTree_init :: "Token list \<Rightarrow> 'u Production list \<Rightarrow> error + 'u ParseTree" where
  "ParseTree_init toks productions =
     (case build_tree productions 0 of
        Inl e \<Rightarrow> Inl e
      | Inr (skeleton, i) \<Rightarrow>
          let r = fst (add_tokens skeleton toks) in
          (case r of
             Node p children \<Rightarrow>
               (if return_value p \<noteq> None
                then (case tree_return_value r of
                        Inl e \<Rightarrow> Inl e
                      | Inr v \<Rightarrow> Inr \<lparr>root = r, leaves = find_leaves r, tree_value = Some v\<rparr>)
                else Inr \<lparr>root = r, leaves = find_leaves r, tree_value = None\<rparr>)
           | _ \<Rightarrow> Inl AttributeError))"

section \<open>recursive_descent.py\<close>

text \<open>
  The matcher recurses through the grammar and need not return (a left-recursive
  grammar); the functions take fuel, one unit for every call, and \<open>OutOfFuel\<close> stands for
  a run that has not returned within it. \<open>Raise\<close> is an exception, \<open>Return\<close> a result.
\<close>

datatype 'a outcome = OutOfFuel | Raise error | Return 'a

record 'u Parser =
  grammar :: "'u Grammar"
  lexer :: CharacterStream
  parse_tree :: "'u ParseTree option"
  parser_value :: "'u pyvalue option"
  tokens :: "Token list"
  lookahead :: "nat option"
  stack :: "'u Production list"

definition Parser_init :: "'u Grammar \<Rightarrow> CharacterStream \<Rightarrow> 'u Parser" where
  "Parser_init g lx =
     \<lparr>grammar = g, lexer = lx, parse_tree = None, parser_value = None,
      tokens = [], lookahead = None, stack = []\<rparr>"

definition reset :: "'u Parser \<Rightarrow> Token list \<Rightarrow> 'u Parser" where
  "reset self toks =
     self\<lparr>tokens := toks, lookahead := Some 0, stack := [], parse_tree := None,
          parser_value := None\<rparr>"

definition advance_lookahead :: "'u Parser \<Rightarrow> 'u Parser" where
  "advance_lookahead self =
     (case lookahead self of
        None \<Rightarrow> self
      | Some l \<Rightarrow> self\<lparr>lookahead := (if length (tokens self) \<le> l + 1 then None else Some (l + 1))\<rparr>)"

definition match_terminal :: "string \<Rightarrow> 'u Parser \<Rightarrow> error + (bool \<times> 'u Parser)" where
  "match_terminal name self =
     (case lookahead self of
        None \<Rightarrow> Inr (False, self)
      | Some l \<Rightarrow>
          if length (tokens self) \<le> l then Inl IndexError
          else if category (tokens self ! l) = name then Inr (True, advance_lookahead self)
          else Inr (False, self))"

text \<open>
  \<^verbatim>\<open>_match_production_element\<close>, \<^verbatim>\<open>_match_production\<close> with its loop over the elements
  (\<open>save\<close> is the lookahead at the entry of the production) and \<^verbatim>\<open>_match_non_terminal\<close>
  with its loop over the alternatives (\<open>save\<close> is the length of the stack at entry).
\<close>

fun match_production_element :: "nat \<Rightarrow> element \<Rightarrow> 'u Parser \<Rightarrow> (bool \<times> 'u Parser) outcome"
  and match_production :: "nat \<Rightarrow> 'u Production \<Rightarrow> 'u Parser \<Rightarrow> (bool \<times> 'u Parser) outcome"
  and match_elements ::
    "nat \<Rightarrow> element list \<Rightarrow> nat option \<Rightarrow> 'u Parser \<Rightarrow> (bool \<times> 'u Parser) outcome"
  and match_non_terminal :: "nat \<Rightarrow> nat \<Rightarrow> 'u Parser \<Rightarrow> (bool \<times> 'u Parser) outcome"
  and match_alternatives ::
    "nat \<Rightarrow> 'u Production list \<Rightarrow> nat \<Rightarrow> 'u Parser \<Rightarrow> (bool \<times> 'u Parser) outcome" where
  "match_production_element 0 e self = OutOfFuel"
| "match_production_element (Suc n) (Terminal name) self =
     (case match_terminal name self of Inl e \<Rightarrow> Raise e | Inr r \<Rightarrow> Return r)"
| "match_production_element (Suc n) (NonTerminal N) self = match_non_terminal n N self"
| "match_production_element (Suc n) Epsilon self = Return (True, self)"
| "match_production_element (Suc n) Action self = Raise TypeError"
| "match_production_element (Suc n) Other self = Raise TypeError"
| "match_production 0 production self = OutOfFuel"
| "match_production (Suc n) production self =
     match_elements n (elements production) (lookahead self) self"
| "match_elements 0 es save self = OutOfFuel"
| "match_elements (Suc n) [] save self = Return (True, self)"
| "match_elements (Suc n) (e # es) save self =
     (case match_production_element n e self of
        OutOfFuel \<Rightarrow> OutOfFuel
      | Raise x \<Rightarrow> Raise x
      | Return (ok, self') \<Rightarrow>
          if \<not> ok then Return (False, self'\<lparr>lookahead := save\<rparr>)
          else match_elements n es save self')"
| "match_non_terminal 0 N self = OutOfFuel"
| "match_non_terminal (Suc n) N self =
     match_alternatives n (productions_of (grammar self) N) (length (stack self)) self"
| "match_alternatives 0 ps save self = OutOfFuel"
| "match_alternatives (Suc n) [] save self = Return (False, self)"
| "match_alternatives (Suc n) (production # ps) save self =
     (case match_production n production (self\<lparr>stack := stack self @ [production]\<rparr>) of
        OutOfFuel \<Rightarrow> OutOfFuel
      | Raise x \<Rightarrow> Raise x
      | Return (ok, self') \<Rightarrow>
          if ok then Return (True, self')
          else match_alternatives n ps save (self'\<lparr>stack := take save (stack self')\<rparr>))"

definition scan :: "nat \<Rightarrow> 'u Parser \<Rightarrow> (bool \<times> 'u Parser) outcome" where
  "scan n self =
     (case Grammar_first (grammar self) of
        Inl e \<Rightarrow> Raise e
      | Inr start \<Rightarrow>
          (case match_production_element n (NonTerminal start) self of
             OutOfFuel \<Rightarrow> OutOfFuel
           | Raise x \<Rightarrow> Raise x
           | Return (result, self') \<Rightarrow>
               if \<not> result \<or> lookahead self' \<noteq> None then Return (False, self')
               else Return (True, self')))"

definition parse :: "nat \<Rightarrow> 'u Parser \<Rightarrow> string \<Rightarrow> (bool \<times> 'u Parser) outcome" where
  "parse n self string =
     (case tokenize (lexer self) string of
        Inl e \<Rightarrow> Raise e
      | Inr toks \<Rightarrow>
          (case scan n (reset self toks) of
             OutOfFuel \<Rightarrow> OutOfFuel
           | Raise x \<Rightarrow> Raise x
           | Return (ok, self') \<Rightarrow>
               if ok then
                 (case ParseTree_init (tokens self') (stack self') of
                    Inl e \<Rightarrow> Raise e
                  | Inr pt \<Rightarrow>
                      Return (True, self'\<lparr>parse_tree := Some pt, parser_value := tree_value pt\<rparr>))
               else Return (False, self')))"

section \<open>automata.py: DFA\<close>

text \<open>
  The table of a DFA is a dict from state to a dict from character to state. In
  \<^verbatim>\<open>_translate_nfa\<close> the dict \<^verbatim>\<open>registered_states\<close> maps frozen sets of NFA states to
  DFA states and \<^verbatim>\<open>stack\<close> is a list used as a stack (\<^verbatim>\<open>pop\<close> takes the last entry).
\<close>

record Dfa =
  dfa_table :: "(nat \<times> (string \<times> nat) list) list"
  finals :: "nat set"

text \<open>The body of \<^verbatim>\<open>for char in sorted(input_chars)\<close>, with the row being filled.\<close>

fun translate_chars ::
  "Nfa \<Rightarrow> nat set \<Rightarrow> string list \<Rightarrow> (nat set \<times> nat) list \<Rightarrow> nat set list \<Rightarrow> (string \<times> nat) list
     \<Rightarrow> error + ((nat set \<times> nat) list \<times> nat set list \<times> (string \<times> nat) list)" where
  "translate_chars nfa nfa_state [] registered_states stk row =
     Inr (registered_states, stk, row)"
| "translate_chars nfa nfa_state (char # chars) registered_states stk row =
     (case transition nfa nfa_state char of
        Inl e \<Rightarrow> Inl e
      | Inr new_nfa_state \<Rightarrow>
          (case map_of registered_states new_nfa_state of
             None \<Rightarrow>
               translate_chars nfa nfa_state chars
                 (AList.update new_nfa_state (length registered_states) registered_states)
                 (stk @ [new_nfa_state])
                 (AList.update char (length registered_states) row)
           | Some new_dfa_state \<Rightarrow>
               translate_chars nfa nfa_state chars registered_states stk
                 (AList.update char new_dfa_state row)))"

text \<open>
  The \<^verbatim>\<open>while stack\<close> loop. It is run on fuel, one unit for every iteration;
  \<^verbatim>\<open>registered_states[nfa_state]\<close> raises KeyError for a set that is not registered.
\<close>

fun translate_loop ::
  "nat \<Rightarrow> Nfa \<Rightarrow> (nat \<times> (string \<times> nat) list) list \<Rightarrow> nat set \<Rightarrow> (nat set \<times> nat) list
     \<Rightarrow> nat set list \<Rightarrow> Dfa outcome" where
  "translate_loop 0 nfa dat fin registered_states stk = OutOfFuel"
| "translate_loop (Suc n) nfa dat fin registered_states stk =
     (if stk = [] then Return \<lparr>dfa_table = dat, finals = fin\<rparr>
      else
        let nfa_state = last stk; stk1 = butlast stk in
        case map_of registered_states nfa_state of
          None \<Rightarrow> Raise KeyError
        | Some dfa_state \<Rightarrow>
            let dat1 = (if map_of dat dfa_state = None then AList.update dfa_state [] dat else dat);
                row = (case map_of dat1 dfa_state of None \<Rightarrow> [] | Some r \<Rightarrow> r)
            in case get_input_characters nfa nfa_state of
                 Inl e \<Rightarrow> Raise e
               | Inr input_chars \<Rightarrow>
                   (case translate_chars nfa nfa_state (sorted_list_of_set input_chars)
                           registered_states stk1 row of
                      Inl e \<Rightarrow> Raise e
                    | Inr (registered_states', stk', row') \<Rightarrow>
                        translate_loop n nfa (AList.update dfa_state row' dat1)
                          (if is_final nfa nfa_state then insert dfa_state fin else fin)
                          registered_states' stk'))"

definition translate_nfa :: "nat \<Rightarrow> Nfa \<Rightarrow> Dfa outcome" where
  "translate_nfa n nfa =
     (case epsilon_closure_state nfa 0 of
        Inl e \<Rightarrow> Raise e
      | Inr initial_state \<Rightarrow>
          translate_loop n nfa [(0, [])] {} [(initial_state, 0)] [initial_state])"

definition Dfa_init :: "nat \<Rightarrow> Nfa \<Rightarrow> Dfa outcome" where
  "Dfa_init n nfa = translate_nfa n nfa"

definition Dfa_is_final :: "Dfa \<Rightarrow> nat \<Rightarrow> bool" where
  "Dfa_is_final dfa state = (state \<in> finals dfa)"

text \<open>\<^verbatim>\<open>Dfa.match\<close>: a KeyError of either lookup is caught and answers False.\<close>

fun Dfa_match_loop :: "Dfa \<Rightarrow> nat \<Rightarrow> string \<Rightarrow> bool" where
  "Dfa_match_loop dfa state [] = Dfa_is_final dfa state"
| "Dfa_match_loop dfa state (c # cs) =
     (case map_of (dfa_table dfa) state of
        None \<Rightarrow> False
      | Some row \<Rightarrow>
          (case map_of row [c] of
             None \<Rightarrow> False
           | Some state' \<Rightarrow> Dfa_match_loop dfa state' cs))"

definition Dfa_match :: "Dfa \<Rightarrow> string \<Rightarrow> bool" where
  "Dfa_match dfa string = Dfa_match_loop dfa 0 string"

section \<open>regex.py\<close>

text \<open>
  The reduction functions of the regex grammar receive the values of the children: the
  lexeme of a \<^verbatim>\<open>char\<close> leaf or an NFA. A string where an NFA is needed has no
  \<^verbatim>\<open>table\<close> attribute (AttributeError); a call with the wrong number of arguments is a
  TypeError. \<^verbatim>\<open>Nfa.char\<close> is only ever applied to the lexeme of a \<^verbatim>\<open>char\<close> leaf;
  columns are keyed by strings, so its application to an NFA object is an error here.
\<close>

definition as_nfa :: "Nfa pyvalue \<Rightarrow> error + Nfa" where
  "as_nfa v = (case v of Obj nfa \<Rightarrow> Inr nfa | Str s \<Rightarrow> Inl AttributeError)"

definition wrap_nfa :: "error + Nfa \<Rightarrow> error + Nfa pyvalue" where
  "wrap_nfa r = (case r of Inl e \<Rightarrow> Inl e | Inr nfa \<Rightarrow> Inr (Obj nfa))"

definition union_func :: "Nfa pyvalue list \<Rightarrow> error + Nfa pyvalue" where
  "union_func vals = wrap_nfa (bind_err (collect (map as_nfa vals)) Nfa_union)"

definition concat_func :: "Nfa pyvalue list \<Rightarrow> error + Nfa pyvalue" where
  "concat_func vals = wrap_nfa (bind_err (collect (map as_nfa vals)) Nfa_concat)"

fun star_func :: "Nfa pyvalue list \<Rightarrow> error + Nfa pyvalue" where
  "star_func [x] = wrap_nfa (bind_err (as_nfa x) Nfa_star)"
| "star_func _ = Inl TypeError"

fun optional_func :: "Nfa pyvalue list \<Rightarrow> error + Nfa pyvalue" where
  "optional_func [x] =
     wrap_nfa (bind_err Nfa_epsilon (\<lambda>e. bind_err (as_nfa x) (\<lambda>nfa. Nfa_union [nfa, e])))"
| "optional_func _ = Inl TypeError"

fun plus_func :: "Nfa pyvalue list \<Rightarrow> error + Nfa pyvalue" where
  "plus_func [x] =
     wrap_nfa (bind_err (as_nfa x) (\<lambda>nfa. bind_err (Nfa_star nfa) (\<lambda>s. Nfa_concat [nfa, s])))"
| "plus_func _ = Inl TypeError"

fun group_func :: "Nfa pyvalue list \<Rightarrow> error + Nfa pyvalue" where
  "group_func [x] = Inr x"
| "group_func _ = Inl TypeError"

fun char_func :: "Nfa pyvalue list \<Rightarrow> error + Nfa pyvalue" where
  "char_func [Str c] = wrap_nfa (Nfa_char c)"
| "char_func _ = Inl TypeError"

definition UNION :: nat where "UNION = 0"
definition CONCAT :: nat where "CONCAT = 1"
definition STAR :: nat where "STAR = 2"
definition ITEM :: nat where "ITEM = 3"

definition Production_init :: "element list \<Rightarrow> 'u Return option \<Rightarrow> 'u Production" where
  "Production_init es r = \<lparr>elements = es, return_value = r\<rparr>"

definition Return_init :: "('u pyvalue list \<Rightarrow> error + 'u pyvalue) \<Rightarrow> int list option \<Rightarrow> 'u Return" where
  "Return_init f a = \<lparr>func = f, args = a\<rparr>"

definition regex_productions :: "nat \<Rightarrow> Nfa Production list" where
  "regex_productions N =
     (if N = UNION then
        [Production_init [NonTerminal CONCAT, Terminal ''|'', NonTerminal UNION]
           (Some (Return_init union_func (Some [0, 2]))),
         Production_init [NonTerminal CONCAT] None]
      else if N = CONCAT then
        [Production_init [NonTerminal STAR, NonTerminal CONCAT]
           (Some (Return_init concat_func None)),
         Production_init [NonTerminal STAR] None]
      else if N = STAR then
        [Production_init [NonTerminal ITEM, Terminal ''*'']
           (Some (Return_init star_func (Some [0]))),
         Production_init [NonTerminal ITEM, Terminal ''?'']
           (Some (Return_init optional_func (Some [0]))),
         Production_init [NonTerminal ITEM, Terminal ''+'']
           (Some (Return_init plus_func (Some [0]))),
         Production_init [NonTerminal ITEM] None]
      else if N = ITEM then
        [Production_init [Terminal ''('', NonTerminal UNION, Terminal '')'']
           (Some (Return_init group_func (Some [1]))),
         Production_init [Terminal ''char''] (Some (Return_init char_func None))]
      else [])"

definition regex_grammar :: "Nfa Grammar" where
  "regex_grammar = \<lparr>non_terminals = [UNION, CONCAT, STAR, ITEM], productions_of = regex_productions\<rparr>"

definition regex_lexer :: CharacterStream where
  "regex_lexer = CharacterStream_init None (Some ''()*|?+'') [CHR 0x5C] ''char''"

definition regex_parser :: "Nfa Parser" where
  "regex_parser = Parser_init regex_grammar regex_lexer"

text \<open>
  \<^verbatim>\<open>compile\<close>: the return value of the parser is handed to \<^verbatim>\<open>Dfa\<close> whatever it is; None
  (and a string) has no \<^verbatim>\<open>epsilon_closure\<close> attribute. \<open>NFA_of\<close> is the NFA that
  \<^verbatim>\<open>compile\<close> hands over.
\<close>

definition NFA_of :: "nat \<Rightarrow> string \<Rightarrow> Nfa outcome" where
  "NFA_of n pattern =
     (case parse n regex_parser pattern of
        OutOfFuel \<Rightarrow> OutOfFuel
      | Raise e \<Rightarrow> Raise e
      | Return (ok, self') \<Rightarrow>
          (case parser_value self' of
             Some (Obj nfa) \<Rightarrow> Return nfa
           | _ \<Rightarrow> Raise AttributeError))"

definition compile :: "nat \<Rightarrow> string \<Rightarrow> Dfa outcome" where
  "compile n pattern =
     (case NFA_of n pattern of
        OutOfFuel \<Rightarrow> OutOfFuel
      | Raise e \<Rightarrow> Raise e
      | Return nfa \<Rightarrow> Dfa_init n nfa)"

section \<open>NFA: the closure computed by the search, and the tables the combinators build\<close>

lemma bind_err_simps [simp]:
  "bind_err (Inl e) f = Inl e" "bind_err (Inr x) f = f x"
  by (simp_all add: bind_err_def)

lemma bind_err_Inr: "bind_err m f = Inr y \<longleftrightarrow> (\<exists>x. m = Inr x \<and> f x = Inr y)"
  by (cases m) simp_all

lemma collect_map_Inr: "(\<And>x. x \<in> set xs \<Longrightarrow> f x = Inr (g x)) \<Longrightarrow> collect (map f xs) = Inr (map g xs)"
  by (induction xs) simp_all

text \<open>
  The epsilon-transitions of a table as a relation on states, and the tables all of
  whose rows have the default \<^verbatim>\<open>set\<close> and all of whose cells hold row indices only. On
  such a table the search returns the states reachable by epsilon-transitions: the
  invariant is that \<open>states\<close> and \<open>update\<close> are reachable from \<open>s\<close> and every
  successor of a state in \<open>states\<close> is in \<open>states\<close> or in \<open>update\<close>.
\<close>

definition eps_rel :: "nfa_table \<Rightarrow> (nat \<times> nat) set" where
  "eps_rel tab = {(u, v). u < Table_len tab \<and> v \<in> TableRow_getitem (rows tab ! u) EPSILON}"

definition targets_ok :: "nfa_table \<Rightarrow> bool" where
  "targets_ok tab = (\<forall>r\<in>set (rows tab). default_value r = set_default \<and> (\<forall>kv\<in>set (data r). \<forall>s\<in>snd kv. s < Table_len tab))"

lemma getitem_range:
  assumes "targets_ok tab" "u < Table_len tab" "v \<in> TableRow_getitem (rows tab ! u) k"
  shows "v < Table_len tab"
proof -
  have r: "rows tab ! u \<in> set (rows tab)" using assms(2) by (simp add: Table_len_def)
  show ?thesis
  proof (cases "map_of (data (rows tab ! u)) k")
    case None
    with assms r show ?thesis
      by (auto simp: TableRow_getitem_def return_default_def targets_ok_def set_default_def)
  next
    case (Some w)
    then have "(k, w) \<in> set (data (rows tab ! u))" by (rule map_of_SomeD)
    with assms r Some show ?thesis
      by (fastforce simp: TableRow_getitem_def targets_ok_def)
  qed
qed

lemma eps_rel_range: "targets_ok tab \<Longrightarrow> (u, v) \<in> eps_rel tab \<Longrightarrow> v < Table_len tab"
  by (auto simp: eps_rel_def dest: getitem_range)

lemma eps_rtrancl_range:
  "(u, v) \<in> (eps_rel tab)\<^sup>* \<Longrightarrow> targets_ok tab \<Longrightarrow> u < Table_len tab \<Longrightarrow> v < Table_len tab"
  by (induction rule: rtrancl_induct) (auto dest: eps_rel_range)

lemma iter_search_closure:
  "targets_ok tab \<Longrightarrow> s \<in> states \<Longrightarrow> states \<subseteq> (eps_rel tab)\<^sup>* `` {s} \<Longrightarrow> update \<subseteq> (eps_rel tab)\<^sup>* `` {s}
    \<Longrightarrow> s < Table_len tab
    \<Longrightarrow> eps_rel tab `` states \<subseteq> states \<union> update
    \<Longrightarrow> iter_search tab states update = Inr ((eps_rel tab)\<^sup>* `` {s})"
proof (induction tab states update rule: iter_search.induct)
  case (1 tab states update)
  note tok = "1.prems"(1)
  note pr = "1.prems"(2-)
  let ?E = "eps_rel tab"
  show ?case
  proof (cases "update = {}")
    case True
    have "?E\<^sup>* `` {s} \<subseteq> states"
    proof
      fix t assume "t \<in> ?E\<^sup>* `` {s}"
      then have "(s, t) \<in> ?E\<^sup>*" by simp
      then show "t \<in> states"
        using pr(1,5) True by (induction rule: rtrancl_induct) auto
    qed
    with pr(2) True show ?thesis by (subst iter_search.simps) auto
  next
    case False
    define update1 where "update1 = update - states"
    define states1 where "states1 = states \<union> update1"
    define update2 where "update2 = (\<Union>u\<in>update1. TableRow_getitem (rows tab ! u) EPSILON) - states1"
    have inrange: "\<not> (\<exists>u\<in>update1. Table_len tab \<le> u)"
    proof
      assume "\<exists>u\<in>update1. Table_len tab \<le> u"
      then obtain u where u: "u \<in> update1" "Table_len tab \<le> u" by auto
      then have "(s, u) \<in> ?E\<^sup>*" using pr(3) by (auto simp: update1_def)
      from eps_rtrancl_range[OF this tok pr(4)] u show False by simp
    qed
    have E1: "?E `` update1 = (\<Union>u\<in>update1. TableRow_getitem (rows tab ! u) EPSILON)"
      using inrange by (auto simp: eps_rel_def not_le)
    have p1: "s \<in> states1" using pr(1) by (simp add: states1_def)
    have p2: "states1 \<subseteq> ?E\<^sup>* `` {s}" using pr(2,3) by (auto simp: states1_def update1_def)
    have p3: "update2 \<subseteq> ?E\<^sup>* `` {s}"
    proof
      fix t assume "t \<in> update2"
      then obtain u where "u \<in> update1" "(u, t) \<in> ?E" using E1 by (auto simp: update2_def)
      moreover have "(s, u) \<in> ?E\<^sup>*" using \<open>u \<in> update1\<close> pr(3) by (auto simp: update1_def)
      ultimately show "t \<in> ?E\<^sup>* `` {s}" by auto
    qed
    have p5: "?E `` states1 \<subseteq> states1 \<union> update2"
    proof -
      have "?E `` states1 = ?E `` states \<union> ?E `` update1" by (auto simp: states1_def)
      moreover have "?E `` states \<subseteq> states1" using pr(5) by (auto simp: states1_def update1_def)
      moreover have "?E `` update1 \<subseteq> states1 \<union> update2" using E1 by (auto simp: update2_def)
      ultimately show ?thesis by blast
    qed
    have "iter_search tab (states \<union> (update - states))
            ((\<Union>u\<in>update - states. TableRow_getitem (rows tab ! u) EPSILON) - (states \<union> (update - states)))
          = Inr (?E\<^sup>* `` {s})"
    proof (rule "1.IH"[OF False refl refl])
    qed (use inrange tok p1 p2 p3 pr(4) p5 in \<open>simp_all add: update1_def states1_def update2_def\<close>)
    then show ?thesis
      using False inrange
      by (subst iter_search.simps) (simp add: Let_def update1_def states1_def update2_def)
  qed
qed

lemma find_epsilon_closure_correct:
  assumes "targets_ok tab" "s < Table_len tab"
  shows "find_epsilon_closure tab s = Inr ((eps_rel tab)\<^sup>* `` {s})"
proof -
  have "eps_rel tab `` {s} \<subseteq> {s} \<union> TableRow_getitem (rows tab ! s) EPSILON"
    by (auto simp: eps_rel_def)
  moreover have "TableRow_getitem (rows tab ! s) EPSILON \<subseteq> (eps_rel tab)\<^sup>* `` {s}"
    using assms(2) by (auto simp: eps_rel_def)
  ultimately show ?thesis
    using assms iter_search_closure[OF assms(1), of s "{s}" "TableRow_getitem (rows tab ! s) EPSILON"]
    by (simp add: find_epsilon_closure_def)
qed

lemma Nfa_init_correct:
  assumes "targets_ok tab"
  shows "Nfa_init tab = Inr \<lparr>table = tab, closure_cache = map (\<lambda>s. (eps_rel tab)\<^sup>* `` {s}) [0..<Table_len tab]\<rparr>"
proof -
  have "collect (map (find_epsilon_closure tab) [0..<Table_len tab])
        = Inr (map (\<lambda>s. (eps_rel tab)\<^sup>* `` {s}) [0..<Table_len tab])"
    by (rule collect_map_Inr) (simp add: find_epsilon_closure_correct[OF assms])
  then show ?thesis by (simp add: Nfa_init_def)
qed

text \<open>
  The offsets of \<^verbatim>\<open>_concat_tables\<close> are the running sums of the lengths, and the
  concatenated table is the rows of the tables one after another, each shifted by its
  offset.
\<close>

fun psums :: "nat \<Rightarrow> nat list \<Rightarrow> nat list" where
  "psums acc [] = []"
| "psums acc (l # ls) = acc # psums (acc + l) ls"

lemma length_psums [simp]: "length (psums acc ls) = length ls"
  by (induction ls arbitrary: acc) simp_all

lemma psums_nth: "i < length ls \<Longrightarrow> psums acc ls ! i = acc + sum_list (take i ls)"
proof (induction ls arbitrary: acc i)
  case Nil
  then show ?case by simp
next
  case (Cons l ls)
  then show ?case by (cases i) simp_all
qed

lemma offsets_of_psums: "ls \<noteq> [] \<Longrightarrow> offsets_of ls = psums 0 ls"
proof (rule nth_equalityI)
  assume ne: "ls \<noteq> []"
  then show len: "length (offsets_of ls) = length (psums 0 ls)"
    by (cases ls) (simp_all add: offsets_of_def)
  fix i assume "i < length (offsets_of ls)"
  with len have i: "i < length ls" by simp
  show "offsets_of ls ! i = psums 0 ls ! i"
  proof (cases i)
    case 0
    with i show ?thesis by (simp add: offsets_of_def psums_nth)
  next
    case (Suc j)
    with i have "j < length ls - 1" by simp
    with i Suc show ?thesis by (simp add: offsets_of_def psums_nth)
  qed
qed

lemma psums_bounds:
  "\<forall>x\<in>set ls. 1 \<le> x \<Longrightarrow> off \<in> set (psums acc ls) \<Longrightarrow> acc \<le> off \<and> off + 1 \<le> acc + sum_list ls"
proof (induction ls arbitrary: acc)
  case Nil
  then show ?case by simp
next
  case (Cons l ls)
  from Cons.prems(2) consider "off = acc" | "off \<in> set (psums (acc + l) ls)" by auto
  then show ?case
  proof cases
    case 1
    with Cons.prems(1) show ?thesis by simp
  next
    case 2
    from Cons.IH[OF _ 2] Cons.prems(1) show ?thesis by simp
  qed
qed

lemma link_offsets_bounds:
  assumes "\<forall>x\<in>set ls. 1 \<le> x" "off \<in> set (drop 1 (psums 0 ls))"
  shows "1 \<le> off \<and> off + 1 \<le> sum_list ls"
proof (cases ls)
  case Nil
  with assms show ?thesis by simp
next
  case (Cons l ls')
  with assms have "off \<in> set (psums l ls')" "\<forall>x\<in>set ls'. 1 \<le> x" "1 \<le> l" by simp_all
  from psums_bounds[OF this(2) this(1)] \<open>1 \<le> l\<close> Cons show ?thesis by simp
qed

definition shift_data :: "nat \<Rightarrow> (string \<times> nat set) list \<Rightarrow> (string \<times> nat set) list" where
  "shift_data i d = map (\<lambda>(k, v). (k, (\<lambda>elem. elem + i) ` v)) d"

fun shifted_rows :: "nat \<Rightarrow> nfa_table list \<Rightarrow> (string \<times> nat set) list list" where
  "shifted_rows off [] = []"
| "shifted_rows off (t # ts) = map (shift_data off) (as_list t) @ shifted_rows (off + Table_len t) ts"

lemma as_list_Table_init [simp]: "as_list (Table_init ds dflt) = ds"
  by (simp add: as_list_def Table_init_def TableRow_init_def comp_def)

lemma Table_len_Table_init [simp]: "Table_len (Table_init ds dflt) = length ds"
  by (simp add: Table_len_def Table_init_def)

lemma table_default_Table_init [simp]: "table_default (Table_init ds dflt) = dflt"
  by (simp add: Table_init_def)

lemma rows_default_Table_init: "r \<in> set (rows (Table_init ds dflt)) \<Longrightarrow> default_value r = dflt"
  by (auto simp: Table_init_def TableRow_init_def)

lemma Table_len_as_list: "Table_len t = length (as_list t)"
  by (simp add: Table_len_def as_list_def)

lemma rows_Table_map:
  "map data (rows (Table_map (\<lambda>x. (\<lambda>elem. elem + i) ` x) t)) = map (shift_data i) (as_list t)"
  by (simp add: Table_map_def Table_init_def TableRow_init_def TableRow_map_def as_list_def
      shift_data_def comp_def)

lemma concat_shifted:
  "concat (map (\<lambda>x. map data (rows (case x of (tab, i) \<Rightarrow> Table_map (\<lambda>x. (\<lambda>elem. elem + i) ` x) tab)))
     (zip ts (psums off (map Table_len ts)))) = shifted_rows off ts"
  by (induction ts arbitrary: off) (simp_all add: rows_Table_map)

lemma concat_tables_eq:
  assumes "ts \<noteq> []"
  shows "concat_tables ts =
    Inr (Table_init (shifted_rows 0 ts) (table_default (hd ts)), psums 0 (map Table_len ts))"
proof -
  obtain t0 ts' where ts: "ts = t0 # ts'" using assms by (cases ts) auto
  have "offsets_of (map Table_len ts) = psums 0 (map Table_len ts)"
    using assms by (simp add: offsets_of_psums)
  then show ?thesis
    using concat_shifted[of ts 0]
    by (simp add: concat_tables_def ts Let_def map_concat comp_def del: psums.simps shifted_rows.simps)
qed

definition cells_ok :: "nat \<Rightarrow> (string \<times> nat set) list list \<Rightarrow> bool" where
  "cells_ok n ds = (\<forall>d\<in>set ds. \<forall>kv\<in>set d. \<forall>s\<in>snd kv. s < n)"

lemma targets_ok_iff:
  "targets_ok tab \<longleftrightarrow> (\<forall>r\<in>set (rows tab). default_value r = set_default) \<and> cells_ok (Table_len tab) (as_list tab)"
  by (auto simp: targets_ok_def cells_ok_def as_list_def)

lemma length_shifted_rows: "length (shifted_rows off ts) = sum_list (map Table_len ts)"
  by (induction ts arbitrary: off) (simp_all add: Table_len_as_list)

lemma cells_ok_mono: "cells_ok n ds \<Longrightarrow> n \<le> m \<Longrightarrow> cells_ok m ds"
  by (fastforce simp: cells_ok_def)

lemma cells_ok_append: "cells_ok n (xs @ ys) \<longleftrightarrow> cells_ok n xs \<and> cells_ok n ys"
  by (auto simp: cells_ok_def)

lemma cells_ok_shift: "cells_ok n ds \<Longrightarrow> cells_ok (off + n) (map (shift_data off) ds)"
  by (fastforce simp: cells_ok_def shift_data_def)

lemma cells_ok_shifted_rows:
  "\<forall>t\<in>set ts. cells_ok (Table_len t) (as_list t) \<Longrightarrow>
     cells_ok (off + sum_list (map Table_len ts)) (shifted_rows off ts)"
proof (induction ts arbitrary: off)
  case Nil
  then show ?case by (simp add: cells_ok_def)
next
  case (Cons t ts)
  have "cells_ok (off + Table_len t) (map (shift_data off) (as_list t))"
    using Cons.prems by (simp add: cells_ok_shift)
  then have "cells_ok (off + sum_list (map Table_len (t # ts))) (map (shift_data off) (as_list t))"
    by (rule cells_ok_mono) simp
  moreover have "cells_ok (off + Table_len t + sum_list (map Table_len ts)) (shifted_rows (off + Table_len t) ts)"
    using Cons.prems by (intro Cons.IH) simp
  ultimately show ?case by (simp add: cells_ok_append add.assoc)
qed

lemma shifted_rows_nonempty:
  "ts \<noteq> [] \<Longrightarrow> as_list (last ts) \<noteq> [] \<Longrightarrow> shifted_rows off ts \<noteq> []"
  by (induction ts arbitrary: off) (auto split: if_splits)

lemma last_shifted_rows:
  "ts \<noteq> [] \<Longrightarrow> as_list (last ts) \<noteq> [] \<Longrightarrow> last (as_list (last ts)) = [] \<Longrightarrow>
     last (shifted_rows off ts) = []"
proof (induction ts arbitrary: off)
  case Nil
  then show ?case by simp
next
  case (Cons t ts)
  show ?case
  proof (cases "ts = []")
    case True
    with Cons.prems show ?thesis by (simp add: last_map shift_data_def)
  next
    case False
    with Cons.prems have "last (shifted_rows (off + Table_len t) ts) = []"
      by (intro Cons.IH) simp_all
    moreover have "shifted_rows (off + Table_len t) ts \<noteq> []"
      using False Cons.prems(2) by (intro shifted_rows_nonempty) simp_all
    ultimately show ?thesis by simp
  qed
qed

text \<open>
  The invariant of a table under construction (\<open>tbl_inv\<close>): its length, cells that hold
  row indices only, the default \<^verbatim>\<open>set\<close>, and an empty last row. Writing an epsilon cell
  into a row other than the last keeps it, so every combinator returns an NFA with this
  invariant, at least two states and the cache of reachable sets (\<open>nfa_ok\<close>).
\<close>

lemma py_index_nat: "i < length xs \<Longrightarrow> py_index xs (int i) = Inr i"
  by (simp add: py_index_def)

lemma set_AList_update: "kv \<in> set (AList.update k v al) \<Longrightarrow> kv = (k, v) \<or> kv \<in> set al"
  by (induction al) (auto split: if_splits)

definition tbl_inv :: "nfa_table \<Rightarrow> nat \<Rightarrow> bool" where
  "tbl_inv t N = (Table_len t = N \<and> targets_ok t \<and> table_default t = set_default
                   \<and> data (last (rows t)) = [])"

lemma Table_setcell_inv:
  assumes "tbl_inv t N" "j + 1 < N" "\<forall>s\<in>v. s < N"
  shows "\<exists>t'. Table_setcell t (int j) k v = Inr t' \<and> tbl_inv t' N"
proof -
  let ?r = "TableRow_setitem (rows t ! j) k v"
  let ?t = "t\<lparr>rows := (rows t)[j := ?r]\<rparr>"
  from assms have len: "length (rows t) = N" and j: "j < length (rows t)"
    by (simp_all add: tbl_inv_def Table_len_def)
  have eq: "Table_setcell t (int j) k v = Inr ?t"
    using j by (simp add: Table_setcell_def py_index_nat)
  have rj: "rows t ! j \<in> set (rows t)" using j by simp
  have tok: "targets_ok t" using assms(1) by (simp add: tbl_inv_def)
  have "targets_ok ?t"
    unfolding targets_ok_def
  proof (intro ballI conjI)
    fix r assume r: "r \<in> set (rows ?t)"
    then have cases: "r = ?r \<or> r \<in> set (rows t)"
      using set_update_subset_insert[of "rows t" j ?r] by auto
    show "default_value r = set_default"
      using cases tok rj by (auto simp: targets_ok_def TableRow_setitem_def)
    fix kv s assume kv: "kv \<in> set (data r)" and s: "s \<in> snd kv"
    from cases show "s < Table_len ?t"
    proof
      assume "r = ?r"
      with kv have "kv = (k, v) \<or> kv \<in> set (data (rows t ! j))"
        by (auto simp: TableRow_setitem_def dest: set_AList_update)
      then show ?thesis
        using s assms(3) tok rj len assms(1)
        by (auto simp: targets_ok_def Table_len_def tbl_inv_def)
    next
      assume "r \<in> set (rows t)"
      with kv s tok show ?thesis by (auto simp: targets_ok_def Table_len_def)
    qed
  qed
  moreover have "last (rows ?t) = last (rows t)"
  proof -
    have "rows t \<noteq> []" "j \<noteq> length (rows t) - 1" using j assms(2) len by auto
    then show ?thesis by (simp add: last_list_update)
  qed
  ultimately have "tbl_inv ?t N"
    using assms(1) by (simp add: tbl_inv_def Table_len_def)
  with eq show ?thesis by blast
qed

lemma link_rows_inv:
  "tbl_inv t N \<Longrightarrow> \<forall>off\<in>set offs. 1 \<le> off \<and> off + 1 \<le> N \<and> (\<forall>s\<in>target off. s < N) \<Longrightarrow>
     \<exists>t'. link_rows t offs target = Inr t' \<and> tbl_inv t' N"
proof (induction offs arbitrary: t)
  case Nil
  then show ?case by simp
next
  case (Cons off offs)
  from Cons.prems(2) have "1 \<le> off \<and> off + 1 \<le> N \<and> (\<forall>s\<in>target off. s < N)" by simp
  then have o: "1 \<le> off" "off - 1 + 1 < N" "\<forall>s\<in>target off. s < N" by auto
  from Table_setcell_inv[OF Cons.prems(1) o(2,3)] obtain t1
    where t1: "Table_setcell t (int (off - 1)) EPSILON (target off) = Inr t1" "tbl_inv t1 N"
    by blast
  have e: "int off - 1 = int (off - 1)" using o(1) by simp
  have "link_rows t (off # offs) target = link_rows t1 offs target"
    by (simp only: link_rows.simps e t1(1) bind_err_simps)
  moreover have "\<forall>off\<in>set offs. 1 \<le> off \<and> off + 1 \<le> N \<and> (\<forall>s\<in>target off. s < N)"
    using Cons.prems(2) by simp
  ultimately show ?case using Cons.IH[OF t1(2)] by simp
qed

definition input_ok :: "nfa_table \<Rightarrow> bool" where
  "input_ok t = (1 \<le> Table_len t \<and> cells_ok (Table_len t) (as_list t) \<and> data (last (rows t)) = [])"

lemma concat_tables_inv:
  assumes "ts \<noteq> []" "\<forall>t\<in>set ts. input_ok t" "table_default (hd ts) = set_default"
  shows "\<exists>tab. concat_tables ts = Inr (tab, psums 0 (map Table_len ts))
           \<and> tbl_inv tab (sum_list (map Table_len ts))"
proof -
  let ?tab = "Table_init (shifted_rows 0 ts) set_default"
  have eq: "concat_tables ts = Inr (?tab, psums 0 (map Table_len ts))"
    using concat_tables_eq[OF assms(1)] assms(3) by simp
  have len: "Table_len ?tab = sum_list (map Table_len ts)"
    by (simp add: length_shifted_rows)
  have "cells_ok (0 + sum_list (map Table_len ts)) (shifted_rows 0 ts)"
    using assms(2) by (intro cells_ok_shifted_rows) (simp add: input_ok_def)
  then have tok: "targets_ok ?tab"
    using length_shifted_rows[of 0 ts] by (simp add: targets_ok_iff rows_default_Table_init)
  have lt: "input_ok (last ts)" using assms(1,2) by simp
  then have ne: "as_list (last ts) \<noteq> []"
    by (auto simp: input_ok_def Table_len_as_list)
  then have "last (as_list (last ts)) = []"
    using lt by (simp add: input_ok_def as_list_def last_map)
  from last_shifted_rows[OF assms(1) ne this, of 0] shifted_rows_nonempty[OF assms(1) ne, of 0]
  have "data (last (rows ?tab)) = []"
    by (simp add: Table_init_def last_map TableRow_init_def)
  with eq len tok show ?thesis
    unfolding tbl_inv_def by (intro exI[of _ ?tab]) simp
qed

definition nfa_ok :: "Nfa \<Rightarrow> bool" where
  "nfa_ok n = (tbl_inv (table n) (Nfa_len n) \<and> 2 \<le> Nfa_len n
     \<and> closure_cache n = map (\<lambda>s. (eps_rel (table n))\<^sup>* `` {s}) [0..<Nfa_len n])"

lemma Nfa_init_ok:
  assumes "tbl_inv tab N" "2 \<le> N"
  shows "\<exists>n. Nfa_init tab = Inr n \<and> nfa_ok n \<and> table n = tab"
  using assms Nfa_init_correct[of tab]
  by (simp add: tbl_inv_def nfa_ok_def Nfa_len_def)

lemma nfa_ok_input: "nfa_ok n \<Longrightarrow> input_ok (table n)"
  by (simp add: nfa_ok_def input_ok_def tbl_inv_def targets_ok_iff Nfa_len_def)

lemma empty_row_input: "input_ok (with_empty_row set_default)"
  by (simp add: input_ok_def with_empty_row_def cells_ok_def Table_init_def TableRow_init_def
      Table_len_def as_list_def)

lemma atom_tbl_inv: "tbl_inv (Table_init [[(c, {1})], []] set_default) 2"
  by (simp add: tbl_inv_def targets_ok_iff cells_ok_def rows_default_Table_init)
     (simp add: Table_init_def TableRow_init_def)

lemma Nfa_epsilon_ok: "\<exists>n. Nfa_epsilon = Inr n \<and> nfa_ok n"
  using Nfa_init_ok[OF atom_tbl_inv] by (auto simp: Nfa_epsilon_def)

lemma Nfa_char_ok: "\<exists>n. Nfa_char c = Inr n \<and> nfa_ok n"
  using Nfa_init_ok[OF atom_tbl_inv] by (auto simp: Nfa_char_def)

lemma sum_list_ge2:
  "ls \<noteq> [] \<Longrightarrow> \<forall>x\<in>set ls. (2::nat) \<le> x \<Longrightarrow> 2 \<le> sum_list ls"
  by (cases ls) auto

lemma Nfa_concat_ok:
  assumes "ms \<noteq> []" "\<forall>m\<in>set ms. nfa_ok m"
  shows "\<exists>n. Nfa_concat ms = Inr n \<and> nfa_ok n"
proof -
  define ts where "ts = map table ms"
  define ls where "ls = map Table_len ts"
  define N where "N = sum_list ls"
  define offs where "offs = psums 0 ls"
  have in_ok: "\<forall>t\<in>set ts. input_ok t" using assms(2) by (simp add: ts_def nfa_ok_input)
  have dflt: "table_default (hd ts) = set_default"
    using assms by (cases ms) (simp_all add: ts_def nfa_ok_def tbl_inv_def)
  have "ts \<noteq> []" using assms(1) by (simp add: ts_def)
  from concat_tables_inv[OF this in_ok dflt] obtain tab
    where tab: "concat_tables ts = Inr (tab, offs)" "tbl_inv tab N"
    unfolding N_def ls_def offs_def by blast
  have ge1: "\<forall>x\<in>set ls. 1 \<le> x" using in_ok by (simp add: input_ok_def ls_def)
  have "\<forall>off\<in>set (drop 1 offs). 1 \<le> off \<and> off + 1 \<le> N \<and> (\<forall>s\<in>{off}. s < N)"
  proof
    fix off assume "off \<in> set (drop 1 offs)"
    from link_offsets_bounds[OF ge1 this[unfolded offs_def]]
    show "1 \<le> off \<and> off + 1 \<le> N \<and> (\<forall>s\<in>{off}. s < N)" by (simp add: N_def)
  qed
  from link_rows_inv[OF tab(2) this] obtain tab'
    where tab': "link_rows tab (drop 1 offs) (\<lambda>off. {off}) = Inr tab'" "tbl_inv tab' N"
    by blast
  have "ls \<noteq> []" "\<forall>x\<in>set ls. 2 \<le> x"
    using assms by (auto simp: ls_def ts_def nfa_ok_def Nfa_len_def)
  then have "2 \<le> N" unfolding N_def by (rule sum_list_ge2)
  from Nfa_init_ok[OF tab'(2) this] obtain n where "Nfa_init tab' = Inr n" "nfa_ok n" by blast
  with tab(1) tab'(1) have "Nfa_concat ms = Inr n"
    by (simp add: Nfa_concat_def ts_def)
  with \<open>nfa_ok n\<close> show ?thesis by blast
qed

lemma Table_len_empty_row: "Table_len (with_empty_row set_default :: nfa_table) = 1"
  by (simp add: with_empty_row_def)

lemma Nfa_union_ok:
  assumes "\<forall>m\<in>set ms. nfa_ok m"
  shows "\<exists>n. Nfa_union ms = Inr n \<and> nfa_ok n"
proof -
  define ts where "ts = [with_empty_row set_default :: nfa_table] @ map table ms @ [with_empty_row set_default]"
  define ls where "ls = map Table_len ts"
  define N where "N = sum_list ls"
  define offs where "offs = psums 0 ls"
  have in_ok: "\<forall>t\<in>set ts. input_ok t"
    using assms by (auto simp: ts_def nfa_ok_input empty_row_input)
  have dflt: "table_default (hd ts) = set_default" by (simp add: ts_def with_empty_row_def)
  have "ts \<noteq> []" by (simp add: ts_def)
  from concat_tables_inv[OF this in_ok dflt] obtain tab
    where tab: "concat_tables ts = Inr (tab, offs)" "tbl_inv tab N"
    unfolding N_def ls_def offs_def by blast
  have ge1: "\<forall>x\<in>set ls. 1 \<le> x" using in_ok by (simp add: input_ok_def ls_def)
  have N2: "2 \<le> N" by (simp add: N_def ls_def ts_def Table_len_empty_row)
  have bnd: "\<And>off. off \<in> set (drop 1 offs) \<Longrightarrow> 1 \<le> off \<and> off + 1 \<le> N"
    using link_offsets_bounds[OF ge1] unfolding offs_def N_def by blast
  have b1: "\<forall>s\<in>set (butlast (drop 1 offs)). s < N"
  proof
    fix s assume "s \<in> set (butlast (drop 1 offs))"
    then have "s \<in> set (drop 1 offs)" by (rule in_set_butlastD)
    from bnd[OF this] show "s < N" by simp
  qed
  have "0 + 1 < N" using N2 by simp
  from Table_setcell_inv[OF tab(2) this b1, of EPSILON] obtain tab1
    where tab1: "Table_setcell tab 0 EPSILON (set (butlast (drop 1 offs))) = Inr tab1"
      "tbl_inv tab1 N" by auto
  have fin: "nat (Table_final tab1) = N - 1"
    using tab1(2) by (simp add: Table_final_def tbl_inv_def)
  have "\<forall>off\<in>set (drop 2 offs). 1 \<le> off \<and> off + 1 \<le> N
          \<and> (\<forall>s\<in>{nat (Table_final tab1)}. s < N)"
  proof
    fix off assume "off \<in> set (drop 2 offs)"
    then have "off \<in> set (drop 1 offs)"
      using set_drop_subset_set_drop[of 1 2 offs] by auto
    from bnd[OF this] fin N2
    show "1 \<le> off \<and> off + 1 \<le> N \<and> (\<forall>s\<in>{nat (Table_final tab1)}. s < N)" by simp
  qed
  from link_rows_inv[OF tab1(2) this] obtain tab'
    where tab': "link_rows tab1 (drop 2 offs) (\<lambda>off. {nat (Table_final tab1)}) = Inr tab'"
      "tbl_inv tab' N" by blast
  from Nfa_init_ok[OF tab'(2) N2] obtain n where "Nfa_init tab' = Inr n" "nfa_ok n" by blast
  with tab(1) tab1(1) tab'(1) have "Nfa_union ms = Inr n"
    by (simp add: Nfa_union_def ts_def)
  with \<open>nfa_ok n\<close> show ?thesis by blast
qed

lemma Nfa_star_ok:
  assumes "nfa_ok m"
  shows "\<exists>n. Nfa_star m = Inr n \<and> nfa_ok n"
proof -
  define ts where "ts = [with_empty_row set_default :: nfa_table, table m, with_empty_row set_default]"
  define N where "N = sum_list (map Table_len ts)"
  have in_ok: "\<forall>t\<in>set ts. input_ok t"
    using assms by (auto simp: ts_def nfa_ok_input empty_row_input)
  have dflt: "table_default (hd ts) = set_default" by (simp add: ts_def with_empty_row_def)
  have "ts \<noteq> []" by (simp add: ts_def)
  from concat_tables_inv[OF this in_ok dflt] obtain tab offs
    where tab: "concat_tables ts = Inr (tab, offs)" "tbl_inv tab N"
    unfolding N_def by blast
  have N: "N = Nfa_len m + 2" "2 \<le> Nfa_len m"
    using assms by (simp_all add: N_def ts_def Table_len_empty_row Nfa_len_def nfa_ok_def)
  have fin: "Table_final tab = int N - 1"
    using tab(2) by (simp add: Table_final_def tbl_inv_def)
  have c1: "\<forall>s\<in>{1, nat (Table_final tab)}. s < N" using fin N by auto
  have "0 + 1 < N" using N by simp
  from Table_setcell_inv[OF tab(2) this c1, of EPSILON] obtain tab1
    where tab1: "Table_setcell tab 0 EPSILON {1, nat (Table_final tab)} = Inr tab1"
      "tbl_inv tab1 N" by auto
  have fin1: "Table_final tab1 = int N - 1"
    using tab1(2) by (simp add: Table_final_def tbl_inv_def)
  have idx: "Table_final tab1 - 1 = int (N - 2)" using fin1 N by simp
  have c2: "\<forall>s\<in>{0, nat (Table_final tab1)}. s < N" using fin1 N by auto
  have "N - 2 + 1 < N" using N by simp
  from Table_setcell_inv[OF tab1(2) this c2, of EPSILON] obtain tab2
    where tab2: "Table_setcell tab1 (int (N - 2)) EPSILON {0, nat (Table_final tab1)} = Inr tab2"
      "tbl_inv tab2 N" by blast
  have "2 \<le> N" using N by simp
  from Nfa_init_ok[OF tab2(2) this] obtain n where "Nfa_init tab2 = Inr n" "nfa_ok n" by blast
  with tab(1) tab1(1) tab2(1) idx have "Nfa_star m = Inr n"
    by (simp add: Nfa_star_def ts_def)
  with \<open>nfa_ok n\<close> show ?thesis by blast
qed

lemma Nfa_concat_Nil: "Nfa_concat [] = Inl IndexError"
  by (simp add: Nfa_concat_def concat_tables_def)

lemma built_nfa_ok: "built n \<Longrightarrow> nfa_ok n"
proof (induction rule: built.induct)
  case (built_epsilon n)
  from Nfa_epsilon_ok obtain n' where "Nfa_epsilon = Inr n'" "nfa_ok n'" by blast
  with built_epsilon show ?case by (metis Inr_inject)
next
  case (built_char c n)
  from Nfa_char_ok[of c] obtain n' where "Nfa_char c = Inr n'" "nfa_ok n'" by blast
  with built_char show ?case by (metis Inr_inject)
next
  case (built_concat ms n)
  then have "ms \<noteq> []" by (auto simp: Nfa_concat_Nil)
  moreover from built_concat have "\<forall>m\<in>set ms. nfa_ok m" by blast
  ultimately obtain n' where "Nfa_concat ms = Inr n'" "nfa_ok n'"
    using Nfa_concat_ok by blast
  with built_concat show ?case by (metis Inr_inject)
next
  case (built_union ms n)
  then have "\<forall>m\<in>set ms. nfa_ok m" by blast
  then obtain n' where "Nfa_union ms = Inr n'" "nfa_ok n'"
    using Nfa_union_ok by blast
  with built_union show ?case by (metis Inr_inject)
next
  case (built_star m n)
  then obtain n' where "Nfa_star m = Inr n'" "nfa_ok n'"
    using Nfa_star_ok by blast
  with built_star show ?case by (metis Inr_inject)
qed

section \<open>NFA: claims\<close>

lemma nfa_ok_final: "nfa_ok n \<Longrightarrow> nat (Nfa_final n) = Nfa_len n - 1 \<and> Nfa_final n = int (Nfa_len n - 1)"
  by (auto simp: nfa_ok_def Nfa_final_def)

lemma nfa_ok_last_row:
  assumes "nfa_ok n"
  shows "rows (table n) ! nat (Nfa_final n) = last (rows (table n))"
    and "rows (table n) ! nat (Nfa_final n) \<in> set (rows (table n))"
proof -
  from assms have ne: "rows (table n) \<noteq> []"
    by (auto simp: nfa_ok_def Nfa_len_def Table_len_def)
  have "nat (Nfa_final n) = length (rows (table n)) - 1"
    using nfa_ok_final[OF assms] by (simp add: Nfa_len_def Table_len_def)
  then show "rows (table n) ! nat (Nfa_final n) = last (rows (table n))"
    using ne by (simp add: last_conv_nth)
  then show "rows (table n) ! nat (Nfa_final n) \<in> set (rows (table n))"
    using ne by simp
qed

text \<open>
  Claim C10. For every NFA produced by the combinators epsilon, char, concat, union and
  star, nested to any depth, the row of the final state is completely empty: its dict has
  no column, so a lookup on any symbol, \<open>EPSILON\<close> included, yields the empty set.
\<close>

theorem final_row_empty:
  "built n \<Longrightarrow>
     data (rows (table n) ! nat (Nfa_final n)) = [] \<and>
     TableRow_getitem (rows (table n) ! nat (Nfa_final n)) k = {}"
proof -
  assume "built n"
  then have ok: "nfa_ok n" by (rule built_nfa_ok)
  let ?r = "rows (table n) ! nat (Nfa_final n)"
  have d: "data ?r = []"
    using ok nfa_ok_last_row(1)[OF ok] by (simp add: nfa_ok_def tbl_inv_def)
  have "default_value ?r = set_default"
    using ok nfa_ok_last_row(2)[OF ok] by (simp add: nfa_ok_def tbl_inv_def targets_ok_def)
  with d show ?thesis
    by (simp add: TableRow_getitem_def return_default_def set_default_def)
qed

text \<open>The star of a single-character NFA is built, and its final row is empty.\<close>

theorem final_row_empty_witness:
  "\<exists>a n. Nfa_char ''a'' = Inr a \<and> Nfa_star a = Inr n \<and> built n \<and>
     data (rows (table n) ! nat (Nfa_final n)) = [] \<and>
     TableRow_getitem (rows (table n) ! nat (Nfa_final n)) ''a'' = {}"
proof -
  obtain a where a: "Nfa_char ''a'' = Inr a" using Nfa_char_ok by blast
  then have ba: "built a" by (rule built_char)
  obtain n where n: "Nfa_star a = Inr n" using Nfa_star_ok[OF built_nfa_ok[OF ba]] by blast
  with ba have "built n" by (rule built_star)
  with a n final_row_empty[of n "''a''"] show ?thesis by blast
qed

text \<open>
  Claim C7. For every NFA built by the combinators and every state \<open>s\<close> of it, the cached
  closure of \<open>s\<close> (which is also the closure of the set \<open>{s}\<close>) is computed without an
  exception, contains \<open>s\<close>, and is a fixed point of the closure operation on sets of
  states.
\<close>

theorem epsilon_closure_reflexive_idempotent:
  assumes "built n" "s < Nfa_len n"
  shows "\<exists>c. epsilon_closure_state n s = Inr c \<and> epsilon_closure n {s} = Inr c \<and> s \<in> c
           \<and> epsilon_closure n c = Inr c"
proof -
  from assms(1) have ok: "nfa_ok n" by (rule built_nfa_ok)
  let ?E = "eps_rel (table n)"
  let ?c = "?E\<^sup>* `` {s}"
  have cache: "closure_cache n = map (\<lambda>s. ?E\<^sup>* `` {s}) [0..<Nfa_len n]"
    using ok by (simp add: nfa_ok_def)
  then have len: "length (closure_cache n) = Nfa_len n" by simp
  have nth: "\<And>t. t < Nfa_len n \<Longrightarrow> closure_cache n ! t = ?E\<^sup>* `` {t}"
    using cache by simp
  have tok: "targets_ok (table n)" using ok by (simp add: nfa_ok_def tbl_inv_def)
  have range: "\<And>t. t \<in> ?c \<Longrightarrow> t < Nfa_len n"
    using eps_rtrancl_range[OF _ tok] assms(2) by (auto simp: Nfa_len_def)
  have 1: "epsilon_closure_state n s = Inr ?c"
    using assms(2) len nth by (simp add: epsilon_closure_state_def)
  have 2: "epsilon_closure n {s} = Inr ?c"
    using assms(2) len nth by (simp add: epsilon_closure_def)
  have "(\<Union>t\<in>?c. closure_cache n ! t) = (\<Union>t\<in>?c. ?E\<^sup>* `` {t})"
    using nth range by simp
  also have "\<dots> = ?c" by (auto intro: rtrancl_trans)
  finally have 3: "epsilon_closure n ?c = Inr ?c"
    using range len by (auto simp: epsilon_closure_def not_le)
  from 1 2 3 show ?thesis by blast
qed

text \<open>State 2 of the four-state NFA of \<^verbatim>\<open>Nfa.star(Nfa.char("a"))\<close>.\<close>

theorem epsilon_closure_reflexive_idempotent_witness:
  "\<exists>a n c. Nfa_char ''a'' = Inr a \<and> Nfa_star a = Inr n \<and> built n \<and> 2 < Nfa_len n \<and>
     epsilon_closure_state n 2 = Inr c \<and> epsilon_closure n {2} = Inr c \<and> 2 \<in> c \<and>
     epsilon_closure n c = Inr c"
proof -
  obtain a where a: "Nfa_char ''a'' = Inr a" using Nfa_char_ok by blast
  then have ba: "built a" by (rule built_char)
  obtain n where n: "Nfa_star a = Inr n" using Nfa_star_ok[OF built_nfa_ok[OF ba]] by blast
  with ba have bn: "built n" by (rule built_star)
  have "bind_err (Nfa_char ''a'') Nfa_star = Inr n" using a n by simp
  then have "bind_err (bind_err (Nfa_char ''a'') Nfa_star) (\<lambda>n. Inr (Nfa_len n)) = Inr (Nfa_len n)"
    by simp
  moreover have "bind_err (bind_err (Nfa_char ''a'') Nfa_star) (\<lambda>n. Inr (Nfa_len n)) = Inr 4"
    by code_simp
  ultimately have len: "2 < Nfa_len n" by simp
  from epsilon_closure_reflexive_idempotent[OF bn len] a n bn len show ?thesis by blast
qed

text \<open>
  \<^verbatim>\<open>Nfa.match\<close> starts on \<open>{0}\<close> and closes a set of states only inside
  \<^verbatim>\<open>transition\<close>; on the empty string no transition is made, and state 0 is not the final
  state of a table with two or more rows.
\<close>

lemma nfa_ok_match_empty: "nfa_ok n \<Longrightarrow> Nfa_match n [] = Inr False"
  using nfa_ok_final[of n] by (auto simp: Nfa_match_def is_final_def nfa_ok_def)

text \<open>
  Claim C2 says that \<^verbatim>\<open>Nfa.match\<close> accepts the empty string exactly when the final state
  is in the closure of \<open>{0}\<close>. The code at \<^verbatim>\<open>Nfa.epsilon()\<close>, documented as the NFA
  that accepts only epsilon: the final state 1 is in the closure \<open>{0, 1}\<close> of state 0, and
  \<^verbatim>\<open>match("")\<close> returns False.
\<close>

theorem epsilon_nfa_rejects_empty_string:
  "(case Nfa_epsilon of
      Inl e \<Rightarrow> False
    | Inr n \<Rightarrow> epsilon_closure n {0} = Inr {0, 1} \<and> Nfa_final n = 1 \<and> is_final n {0, 1}
               \<and> Nfa_match n [] = Inr False)"
  by code_simp

text \<open>
  Claim C9 says that two rows are equal exactly when their data and their defaults are
  equal. The code on \<^verbatim>\<open>TableRow({0: "a"}, None) == TableRow({0: "a"}, None)\<close>, a case of
  the repository's test of row equality: the two objects have equal data and equal
  defaults, and they compare unequal.
\<close>

theorem equal_rows_compare_unequal:
  "(case TableRow_new [] [(0 :: int, Some ''a'')] (Value None) of
      (r1, store1) \<Rightarrow>
        (case TableRow_new store1 [(0, Some ''a'')] (Value None) of
           (r2, store2) \<Rightarrow>
             data (store2 ! r1) = data (store2 ! r2)
             \<and> default_value (store2 ! r1) = default_value (store2 ! r2)
             \<and> \<not> TableRow_eq r1 r2))"
  by (simp add: TableRow_new_def TableRow_eq_def TableRow_init_def)

section \<open>Parser: what a match leaves behind\<close>

text \<open>
  A match changes nothing of the parser but the lookahead and the stack, and the stack
  only grows at its end (\<open>same_frame\<close>). A failed element or non-terminal leaves the
  parser unchanged, a failed production leaves the lookahead unchanged.
\<close>

lemmas match_induct =
  match_production_element_match_production_match_elements_match_non_terminal_match_alternatives.induct

definition same_frame :: "'u Parser \<Rightarrow> 'u Parser \<Rightarrow> bool" where
  "same_frame self self' =
     (grammar self' = grammar self \<and> lexer self' = lexer self \<and> parse_tree self' = parse_tree self
      \<and> parser_value self' = parser_value self \<and> tokens self' = tokens self
      \<and> (\<exists>ps. stack self' = stack self @ ps))"

lemma same_frame_refl [simp]: "same_frame self self"
  by (simp add: same_frame_def)

lemma same_frame_trans: "same_frame a b \<Longrightarrow> same_frame b c \<Longrightarrow> same_frame a c"
  by (auto simp: same_frame_def)

lemma frame_eq:
  "same_frame self self' \<Longrightarrow> lookahead self' = lookahead self \<Longrightarrow> stack self' = stack self
     \<Longrightarrow> self' = self"
  by (simp add: same_frame_def)

lemma match_terminal_frame:
  "match_terminal name self = Inr (r, self') \<Longrightarrow> same_frame self self' \<and> (\<not> r \<longrightarrow> self' = self)"
  by (auto simp: match_terminal_def advance_lookahead_def same_frame_def
      split: option.splits if_splits)

lemma match_frame:
  "match_production_element n e self = Return (r, self') \<Longrightarrow>
     same_frame self self' \<and> (\<not> r \<longrightarrow> self' = self)"
  "match_production n p self = Return (r, self') \<Longrightarrow>
     same_frame self self' \<and> (\<not> r \<longrightarrow> lookahead self' = lookahead self)"
  "match_elements n es save self = Return (r, self') \<Longrightarrow>
     same_frame self self' \<and> (\<not> r \<longrightarrow> lookahead self' = save)"
  "match_non_terminal n N self = Return (r, self') \<Longrightarrow>
     same_frame self self' \<and> (\<not> r \<longrightarrow> self' = self)"
  "match_alternatives n alts sv self = Return (r, self') \<Longrightarrow> sv = length (stack self) \<Longrightarrow>
     same_frame self self' \<and> (\<not> r \<longrightarrow> self' = self)"
proof (induction n e self and n p self and n es save self and n N self and n alts sv self
    arbitrary: r self' and r self' and r self' and r self' and r self' rule: match_induct)
  case (2 n name self)
  then show ?case by (auto split: sum.splits dest: match_terminal_frame)
next
  case (11 n e es save self)
  from "11.prems" obtain ok s1 where 1: "match_production_element n e self = Return (ok, s1)"
    by (auto split: outcome.splits)
  from "11.IH"(1)[OF 1] have f1: "same_frame self s1" by simp
  show ?case
  proof (cases ok)
    case False
    with "11.prems" 1 have "self' = s1\<lparr>lookahead := save\<rparr>" "\<not> r" by auto
    with f1 show ?thesis by (auto simp: same_frame_def)
  next
    case True
    with "11.prems" 1 have 2: "match_elements n es save s1 = Return (r, self')" by simp
    from "11.IH"(2)[OF 1 refl _ 2] True f1 show ?thesis
      by (auto intro: same_frame_trans)
  qed
next
  case (16 n production ps sv self)
  let ?s0 = "self\<lparr>stack := stack self @ [production]\<rparr>"
  from "16.prems" obtain ok s1 where 1: "match_production n production ?s0 = Return (ok, s1)"
    by (auto split: outcome.splits)
  from "16.IH"(1)[OF 1] have f1: "same_frame ?s0 s1" and l1: "\<not> ok \<longrightarrow> lookahead s1 = lookahead self"
    by simp_all
  have f0: "same_frame self ?s0" by (simp add: same_frame_def)
  show ?case
  proof (cases ok)
    case True
    with "16.prems" 1 have "self' = s1" "r" by auto
    with f0 f1 show ?thesis by (auto intro: same_frame_trans)
  next
    case False
    let ?s2 = "s1\<lparr>stack := take sv (stack s1)\<rparr>"
    from False "16.prems" 1 have 2: "match_alternatives n ps sv ?s2 = Return (r, self')" by simp
    have "?s2 = self"
      using f1 l1 False "16.prems"(2) by (intro frame_eq) (auto simp: same_frame_def)
    then have eq: "?s2 = self" .
    have "same_frame ?s2 self' \<and> (\<not> r \<longrightarrow> self' = ?s2)"
    proof (rule "16.IH"(2)[OF 1 refl _ 2])
      show "\<not> ok" by fact
      show "sv = length (stack ?s2)" unfolding eq by (rule "16.prems"(2))
    qed
    then show ?thesis unfolding eq .
  qed
qed (auto split: outcome.splits)

text \<open>
  After a failed alternative the truncation of the stack gives back the state in which
  the non-terminal was entered, so every alternative is tried on that state.
\<close>

lemma failed_alternative_restores:
  assumes "match_production n p (self\<lparr>stack := stack self @ [p]\<rparr>) = Return (False, s1)"
  shows "s1\<lparr>stack := take (length (stack self)) (stack s1)\<rparr> = self"
proof -
  let ?s0 = "self\<lparr>stack := stack self @ [p]\<rparr>"
  from match_frame(2)[OF assms] have f1: "same_frame ?s0 s1" and l1: "lookahead s1 = lookahead self"
    by simp_all
  then show ?thesis by (intro frame_eq) (auto simp: same_frame_def)
qed

lemma alternatives_order:
  "match_alternatives n alts sv self = Return (True, self') \<Longrightarrow> sv = length (stack self) \<Longrightarrow>
     \<exists>i<length alts.
       (\<exists>k. match_production k (alts ! i) (self\<lparr>stack := stack self @ [alts ! i]\<rparr>) = Return (True, self'))
       \<and> (\<forall>j<i. \<exists>k s. match_production k (alts ! j) (self\<lparr>stack := stack self @ [alts ! j]\<rparr>)
                         = Return (False, s))"
proof (induction alts arbitrary: n)
  case Nil
  then show ?case by (cases n) simp_all
next
  case (Cons p ps)
  from Cons.prems(1) obtain m where n: "n = Suc m" by (cases n) simp_all
  let ?s0 = "self\<lparr>stack := stack self @ [p]\<rparr>"
  from Cons.prems(1) n obtain ok s1 where 1: "match_production m p ?s0 = Return (ok, s1)"
    by (auto split: outcome.splits)
  show ?case
  proof (cases ok)
    case True
    with Cons.prems(1) n 1 have "self' = s1" by simp
    with 1 True have "\<exists>k. match_production k ((p # ps) ! 0) (self\<lparr>stack := stack self @ [(p # ps) ! 0]\<rparr>)
        = Return (True, self')" by auto
    then show ?thesis by (intro exI[of _ 0]) simp
  next
    case False
    with 1 have "s1\<lparr>stack := take (length (stack self)) (stack s1)\<rparr> = self"
      by (intro failed_alternative_restores) simp
    with Cons.prems n 1 False have "match_alternatives m ps sv self = Return (True, self')"
      by simp
    from Cons.IH[OF this Cons.prems(2)] obtain i where i: "i < length ps"
      "\<exists>k. match_production k (ps ! i) (self\<lparr>stack := stack self @ [ps ! i]\<rparr>) = Return (True, self')"
      "\<forall>j<i. \<exists>k s. match_production k (ps ! j) (self\<lparr>stack := stack self @ [ps ! j]\<rparr>) = Return (False, s)"
      by blast
    have "\<forall>j<Suc i. \<exists>k s. match_production k ((p # ps) ! j) (self\<lparr>stack := stack self @ [(p # ps) ! j]\<rparr>)
        = Return (False, s)"
    proof (intro allI impI)
      fix j assume "j < Suc i"
      show "\<exists>k s. match_production k ((p # ps) ! j) (self\<lparr>stack := stack self @ [(p # ps) ! j]\<rparr>)
        = Return (False, s)"
      proof (cases j)
        case 0
        with 1 False show ?thesis by auto
      next
        case (Suc j')
        with \<open>j < Suc i\<close> i(3) show ?thesis by simp
      qed
    qed
    with i(1,2) show ?thesis by (intro exI[of _ "Suc i"]) simp
  qed
qed

text \<open>
  A run that returns or raises within some fuel gives the same outcome with any more fuel.
\<close>

lemma Suc_le_obtain: "Suc n \<le> m \<Longrightarrow> \<exists>m'. m = Suc m' \<and> n \<le> m'"
  by (cases m) simp_all

lemma fuel_mono:
  "match_production_element n e self = r \<Longrightarrow> r \<noteq> OutOfFuel \<Longrightarrow> n \<le> m \<Longrightarrow>
     match_production_element m e self = r"
  "match_production n p self = r \<Longrightarrow> r \<noteq> OutOfFuel \<Longrightarrow> n \<le> m \<Longrightarrow>
     match_production m p self = r"
  "match_elements n es save self = r \<Longrightarrow> r \<noteq> OutOfFuel \<Longrightarrow> n \<le> m \<Longrightarrow>
     match_elements m es save self = r"
  "match_non_terminal n N self = r \<Longrightarrow> r \<noteq> OutOfFuel \<Longrightarrow> n \<le> m \<Longrightarrow>
     match_non_terminal m N self = r"
  "match_alternatives n alts sv self = r \<Longrightarrow> r \<noteq> OutOfFuel \<Longrightarrow> n \<le> m \<Longrightarrow>
     match_alternatives m alts sv self = r"
proof (induction n e self and n p self and n es save self and n N self and n alts sv self
    arbitrary: m r and m r and m r and m r and m r rule: match_induct)
  case (2 n name self)
  then show ?case by (auto dest!: Suc_le_obtain)
next
  case (3 n N self)
  from "3.prems"(3) obtain m' where m: "m = Suc m'" "n \<le> m'" by (auto dest: Suc_le_obtain)
  from "3.prems"(1,2) have "match_non_terminal n N self = r" by simp
  from "3.IH"[OF this "3.prems"(2) m(2)] m show ?case by simp
next
  case (4 n self)
  then show ?case by (auto dest!: Suc_le_obtain)
next
  case (5 n self)
  then show ?case by (auto dest!: Suc_le_obtain)
next
  case (6 n self)
  then show ?case by (auto dest!: Suc_le_obtain)
next
  case (8 n production self)
  from "8.prems"(3) obtain m' where m: "m = Suc m'" "n \<le> m'" by (auto dest: Suc_le_obtain)
  from "8.prems"(1,2) have "match_elements n (elements production) (lookahead self) self = r" by simp
  from "8.IH"[OF this "8.prems"(2) m(2)] m show ?case by simp
next
  case (10 n save self)
  then show ?case by (auto dest!: Suc_le_obtain)
next
  case (11 n e es save self)
  from "11.prems"(3) obtain m' where m: "m = Suc m'" "n \<le> m'" by (auto dest: Suc_le_obtain)
  obtain r1 where r1: "match_production_element n e self = r1" by simp
  from "11.prems"(1,2) r1 have ne: "r1 \<noteq> OutOfFuel" by (auto split: outcome.splits)
  from "11.IH"(1)[OF r1 ne m(2)] have 1: "match_production_element m' e self = r1" .
  show ?case
  proof (cases r1)
    case OutOfFuel
    with ne show ?thesis by simp
  next
    case (Raise x)
    with "11.prems"(1) r1 have "r = Raise x" by simp
    with 1 Raise m show ?thesis by simp
  next
    case (Return x)
    obtain ok s1 where x: "x = (ok, s1)" by (cases x)
    show ?thesis
    proof (cases ok)
      case False
      with Return x "11.prems"(1) r1 have "r = Return (False, s1\<lparr>lookahead := save\<rparr>)" by simp
      with 1 Return x False m show ?thesis by simp
    next
      case True
      with Return x "11.prems"(1) r1 have 2: "match_elements n es save s1 = r" by simp
      have "match_elements m' es save s1 = r"
      proof (rule "11.IH"(2)[OF r1[unfolded Return] x[symmetric] _ 2 "11.prems"(2) m(2)])
        show "\<not> \<not> ok" using True by simp
      qed
      with Return x True 1 m show ?thesis by simp
    qed
  qed
next
  case (13 n N self)
  from "13.prems"(3) obtain m' where m: "m = Suc m'" "n \<le> m'" by (auto dest: Suc_le_obtain)
  from "13.prems"(1,2)
  have "match_alternatives n (productions_of (grammar self) N) (length (stack self)) self = r" by simp
  from "13.IH"[OF this "13.prems"(2) m(2)] m show ?case by simp
next
  case (15 n save self)
  then show ?case by (auto dest!: Suc_le_obtain)
next
  case (16 n production ps sv self)
  from "16.prems"(3) obtain m' where m: "m = Suc m'" "n \<le> m'" by (auto dest: Suc_le_obtain)
  let ?s0 = "self\<lparr>stack := stack self @ [production]\<rparr>"
  obtain r1 where r1: "match_production n production ?s0 = r1" by simp
  from "16.prems"(1,2) r1 have ne: "r1 \<noteq> OutOfFuel" by (auto split: outcome.splits)
  from "16.IH"(1)[OF r1 ne m(2)] have 1: "match_production m' production ?s0 = r1" .
  show ?case
  proof (cases r1)
    case OutOfFuel
    with ne show ?thesis by simp
  next
    case (Raise x)
    with "16.prems"(1) r1 have "r = Raise x" by simp
    with 1 Raise m show ?thesis by simp
  next
    case (Return x)
    obtain ok s1 where x: "x = (ok, s1)" by (cases x)
    show ?thesis
    proof (cases ok)
      case True
      with Return x "16.prems"(1) r1 have "r = Return (True, s1)" by simp
      with 1 Return x True m show ?thesis by simp
    next
      case False
      with Return x "16.prems"(1) r1
      have 2: "match_alternatives n ps sv (s1\<lparr>stack := take sv (stack s1)\<rparr>) = r" by simp
      have "match_alternatives m' ps sv (s1\<lparr>stack := take sv (stack s1)\<rparr>) = r"
      proof (rule "16.IH"(2)[OF r1[unfolded Return] x[symmetric] _ 2 "16.prems"(2) m(2)])
        show "\<not> ok" using False by simp
      qed
      with Return x False 1 m show ?thesis by simp
    qed
  qed
qed simp_all

text \<open>
  An alternative of a non-terminal entered in state \<open>self\<close> is tried by pushing the
  production and matching it: \<open>alternative_result self p r\<close> says that this trial returns
  \<open>r\<close>, \<open>alternative_fails self p\<close> that it returns a failure. The loop over the
  alternatives fails only when every trial fails, and it returns the first success once
  the trials before it have failed.
\<close>

definition alternative_result :: "'u Parser \<Rightarrow> 'u Production \<Rightarrow> bool \<times> 'u Parser \<Rightarrow> bool" where
  "alternative_result self p r =
     (\<exists>k. match_production k p (self\<lparr>stack := stack self @ [p]\<rparr>) = Return r)"

definition alternative_fails :: "'u Parser \<Rightarrow> 'u Production \<Rightarrow> bool" where
  "alternative_fails self p = (\<exists>s. alternative_result self p (False, s))"

lemma alternatives_fail_all:
  "match_alternatives n alts sv self = Return (False, self') \<Longrightarrow> sv = length (stack self) \<Longrightarrow>
     \<forall>j<length alts. alternative_fails self (alts ! j)"
proof (induction alts arbitrary: n)
  case Nil
  then show ?case by simp
next
  case (Cons p ps)
  from Cons.prems(1) obtain m where n: "n = Suc m" by (cases n) simp_all
  let ?s0 = "self\<lparr>stack := stack self @ [p]\<rparr>"
  from Cons.prems(1) n obtain ok s1 where 1: "match_production m p ?s0 = Return (ok, s1)"
    by (auto split: outcome.splits)
  with Cons.prems(1) n have nok: "\<not> ok" by (auto split: if_splits)
  with 1 have f0: "alternative_fails self p"
    unfolding alternative_fails_def alternative_result_def by auto
  from 1 nok have "s1\<lparr>stack := take (length (stack self)) (stack s1)\<rparr> = self"
    by (intro failed_alternative_restores) simp
  with Cons.prems n 1 nok have "match_alternatives m ps sv self = Return (False, self')" by simp
  from Cons.IH[OF this Cons.prems(2)] have rest: "\<forall>j<length ps. alternative_fails self (ps ! j)" .
  show ?case
  proof (intro allI impI)
    fix j assume "j < length (p # ps)"
    then show "alternative_fails self ((p # ps) ! j)"
      using f0 rest by (cases j) simp_all
  qed
qed

lemma alternatives_first_success:
  "sv = length (stack self) \<Longrightarrow> i < length alts \<Longrightarrow>
   alternative_result self (alts ! i) (True, self') \<Longrightarrow>
   \<forall>j<i. alternative_fails self (alts ! j) \<Longrightarrow>
     \<exists>n. match_alternatives n alts sv self = Return (True, self')"
proof (induction alts arbitrary: i)
  case Nil
  then show ?case by simp
next
  case (Cons p ps)
  let ?s0 = "self\<lparr>stack := stack self @ [p]\<rparr>"
  show ?case
  proof (cases i)
    case 0
    with Cons.prems(3) obtain k where "match_production k p ?s0 = Return (True, self')"
      unfolding alternative_result_def by auto
    then have "match_alternatives (Suc k) (p # ps) sv self = Return (True, self')" by simp
    then show ?thesis by blast
  next
    case (Suc i')
    with Cons.prems(4) have "alternative_fails self ((p # ps) ! 0)" by blast
    then obtain k s1 where 1: "match_production k p ?s0 = Return (False, s1)"
      unfolding alternative_fails_def alternative_result_def by auto
    then have rs: "s1\<lparr>stack := take (length (stack self)) (stack s1)\<rparr> = self"
      by (rule failed_alternative_restores)
    have "\<exists>n. match_alternatives n ps sv self = Return (True, self')"
    proof (rule Cons.IH[OF Cons.prems(1), of i'])
      show "i' < length ps" using Cons.prems(2) Suc by simp
      show "alternative_result self (ps ! i') (True, self')" using Cons.prems(3) Suc by simp
      show "\<forall>j<i'. alternative_fails self (ps ! j)"
      proof (intro allI impI)
        fix j assume "j < i'"
        then have "Suc j < i" using Suc by simp
        with Cons.prems(4) have "alternative_fails self ((p # ps) ! Suc j)" by blast
        then show "alternative_fails self (ps ! j)" by simp
      qed
    qed
    then obtain n where 2: "match_alternatives n ps sv self = Return (True, self')" by blast
    let ?m = "max k n"
    have a: "match_production ?m p ?s0 = Return (False, s1)"
      by (rule fuel_mono(2)[OF 1]) simp_all
    have b: "match_alternatives ?m ps sv self = Return (True, self')"
      by (rule fuel_mono(5)[OF 2]) simp_all
    have "match_alternatives (Suc ?m) (p # ps) sv self = Return (True, self')"
      using a b rs Cons.prems(1) by simp
    then show ?thesis by blast
  qed
qed

lemma alternatives_all_fail:
  "sv = length (stack self) \<Longrightarrow> \<forall>j<length alts. alternative_fails self (alts ! j) \<Longrightarrow>
     \<exists>n. match_alternatives n alts sv self = Return (False, self)"
proof (induction alts)
  case Nil
  have "match_alternatives (Suc 0) [] sv self = Return (False, self)" by simp
  then show ?case by blast
next
  case (Cons p ps)
  let ?s0 = "self\<lparr>stack := stack self @ [p]\<rparr>"
  from Cons.prems(2) have "alternative_fails self ((p # ps) ! 0)" by blast
  then obtain k s1 where 1: "match_production k p ?s0 = Return (False, s1)"
    unfolding alternative_fails_def alternative_result_def by auto
  then have rs: "s1\<lparr>stack := take (length (stack self)) (stack s1)\<rparr> = self"
    by (rule failed_alternative_restores)
  have "\<forall>j<length ps. alternative_fails self (ps ! j)"
  proof (intro allI impI)
    fix j assume "j < length ps"
    then have "Suc j < length (p # ps)" by simp
    with Cons.prems(2) have "alternative_fails self ((p # ps) ! Suc j)" by blast
    then show "alternative_fails self (ps ! j)" by simp
  qed
  from Cons.IH[OF Cons.prems(1) this] obtain n
    where 2: "match_alternatives n ps sv self = Return (False, self)" by blast
  let ?m = "max k n"
  have a: "match_production ?m p ?s0 = Return (False, s1)"
    by (rule fuel_mono(2)[OF 1]) simp_all
  have b: "match_alternatives ?m ps sv self = Return (False, self)"
    by (rule fuel_mono(5)[OF 2]) simp_all
  have "match_alternatives (Suc ?m) (p # ps) sv self = Return (False, self)"
    using a b rs Cons.prems(1) by simp
  then show ?case by blast
qed

lemma non_terminal_from_alternatives:
  assumes "match_alternatives n (productions_of (grammar self) N) (length (stack self)) self = Return r"
  shows "\<exists>n0. \<forall>m\<ge>n0. match_non_terminal m N self = Return r"
proof (intro exI[of _ "Suc n"] allI impI)
  fix m assume "Suc n \<le> m"
  have "match_non_terminal (Suc n) N self = Return r" using assms by simp
  from fuel_mono(4)[OF this _ \<open>Suc n \<le> m\<close>] show "match_non_terminal m N self = Return r" by simp
qed

text \<open>
  The position of the lookahead (past-end is the number of tokens), the number of leaves of
  a list of trees, and what it means for a segment of the stack to be what the tree
  builder consumes for a list of elements or for one node, wherever the segment lies.
\<close>

definition pos :: "'u Parser \<Rightarrow> nat" where
  "pos self = (case lookahead self of None \<Rightarrow> length (tokens self) | Some l \<Rightarrow> l)"

lemma pos_stack_update [simp]: "pos (self\<lparr>stack := s\<rparr>) = pos self"
  by (cases "lookahead self") (simp_all add: pos_def)

definition nleaves :: "'u tree list \<Rightarrow> nat" where
  "nleaves ts = length (concat (map find_leaves ts))"

lemma nleaves_simps [simp]:
  "nleaves [] = 0"
  "nleaves (t # ts) = length (find_leaves t) + nleaves ts"
  "nleaves (ts @ us) = nleaves ts + nleaves us"
  by (simp_all add: nleaves_def)

lemma build_children_Cons:
  "build_children ps (e # es) i =
     (case build_children ps [e] i of
        Inl x \<Rightarrow> Inl x
      | Inr (ts1, i1) \<Rightarrow>
          (case build_children ps es i1 of
             Inl x \<Rightarrow> Inl x
           | Inr (ts2, i2) \<Rightarrow> Inr (ts1 @ ts2, i2)))"
  by (cases e) (auto split: sum.splits prod.splits)

definition builds_children :: "'u Production list \<Rightarrow> element list \<Rightarrow> 'u tree list \<Rightarrow> bool" where
  "builds_children ps es ts =
     (\<forall>pre rest. build_children (pre @ ps @ rest) es (length pre) = Inr (ts, length pre + length ps))"

definition builds_tree :: "'u Production list \<Rightarrow> 'u tree \<Rightarrow> bool" where
  "builds_tree ps t =
     (\<forall>pre rest. build_tree (pre @ ps @ rest) (length pre) = Inr (t, length pre + length ps))"

lemma builds_children_Nil: "builds_children [] [] []"
  by (simp add: builds_children_def)

lemma builds_children_append:
  assumes "builds_children ps1 [e] ts1" "builds_children ps2 es ts2"
  shows "builds_children (ps1 @ ps2) (e # es) (ts1 @ ts2)"
  unfolding builds_children_def
proof (intro allI)
  fix pre rest
  have 1: "build_children (pre @ ps1 @ (ps2 @ rest)) [e] (length pre) = Inr (ts1, length pre + length ps1)"
    using assms(1) unfolding builds_children_def by blast
  have 2: "build_children ((pre @ ps1) @ ps2 @ rest) es (length (pre @ ps1))
            = Inr (ts2, length (pre @ ps1) + length ps2)"
    using assms(2) unfolding builds_children_def by blast
  show "build_children (pre @ (ps1 @ ps2) @ rest) (e # es) (length pre)
          = Inr (ts1 @ ts2, length pre + length (ps1 @ ps2))"
    using 1 2 by (subst build_children_Cons) (simp add: add.assoc)
qed

lemma builds_tree_child: "builds_tree ps t \<Longrightarrow> builds_children ps [NonTerminal N] [t]"
  by (simp add: builds_tree_def builds_children_def)

lemma builds_tree_Node:
  assumes "builds_children qs (elements p) ts"
  shows "builds_tree (p # qs) (Node p ts)"
  unfolding builds_tree_def
proof (intro allI)
  fix pre rest
  have "build_children ((pre @ [p]) @ qs @ rest) (elements p) (length (pre @ [p]))
          = Inr (ts, length (pre @ [p]) + length qs)"
    using assms unfolding builds_children_def by blast
  then show "build_tree (pre @ (p # qs) @ rest) (length pre) = Inr (Node p ts, length pre + length (p # qs))"
    by (simp add: nth_append)
qed

lemma match_terminal_success:
  "match_terminal name self = Inr (True, self') \<Longrightarrow> stack self' = stack self \<and> pos self' = pos self + 1"
  by (auto simp: match_terminal_def advance_lookahead_def pos_def split: option.splits if_splits)

lemma same_frame_tokens: "same_frame self self' \<Longrightarrow> tokens self' = tokens self"
  by (simp add: same_frame_def)

lemma match_success:
  "match_production_element n e self = Return (True, self') \<Longrightarrow>
     \<exists>ps ts. stack self' = stack self @ ps \<and> pos self' = pos self + nleaves ts \<and> builds_children ps [e] ts"
  "match_production n p self = Return (True, self') \<Longrightarrow>
     \<exists>ps ts. stack self' = stack self @ ps \<and> pos self' = pos self + nleaves ts
        \<and> builds_children ps (elements p) ts"
  "match_elements n es save self = Return (True, self') \<Longrightarrow>
     \<exists>ps ts. stack self' = stack self @ ps \<and> pos self' = pos self + nleaves ts \<and> builds_children ps es ts"
  "match_non_terminal n N self = Return (True, self') \<Longrightarrow>
     \<exists>ps t. stack self' = stack self @ ps \<and> pos self' = pos self + nleaves [t] \<and> builds_tree ps t"
  "match_alternatives n alts sv self = Return (True, self') \<Longrightarrow> sv = length (stack self) \<Longrightarrow>
     \<exists>ps t. stack self' = stack self @ ps \<and> pos self' = pos self + nleaves [t] \<and> builds_tree ps t"
proof (induction n e self and n p self and n es save self and n N self and n alts sv self
    arbitrary: self' and self' and self' and self' and self' rule: match_induct)
  case (2 n name self)
  then have "match_terminal name self = Inr (True, self')" by (auto split: sum.splits)
  from match_terminal_success[OF this]
  have "stack self' = stack self @ []" "pos self' = pos self + nleaves [Leaf name None]" by simp_all
  moreover have "builds_children [] [Terminal name] [Leaf name None]"
    by (simp add: builds_children_def)
  ultimately show ?case by blast
next
  case (3 n N self)
  then have "match_non_terminal n N self = Return (True, self')" by simp
  from "3.IH"[OF this] show ?case by (blast intro: builds_tree_child)
next
  case (4 n self)
  then have "stack self' = stack self @ []" "pos self' = pos self + nleaves []" by simp_all
  moreover have "builds_children [] [Epsilon] []" by (simp add: builds_children_def)
  ultimately show ?case by blast
next
  case (10 n save self)
  then have "stack self' = stack self @ []" "pos self' = pos self + nleaves []" by simp_all
  with builds_children_Nil show ?case by blast
next
  case (11 n e es save self)
  from "11.prems" obtain ok s1 where 1: "match_production_element n e self = Return (ok, s1)"
    by (auto split: outcome.splits)
  with "11.prems" have ok: ok by (auto split: if_splits)
  with "11.prems" 1 have 2: "match_elements n es save s1 = Return (True, self')" by simp
  from "11.IH"(1)[OF 1[unfolded ok[THEN eqTrueI]]] 1 ok obtain ps1 ts1 where
    a: "stack s1 = stack self @ ps1" "pos s1 = pos self + nleaves ts1" "builds_children ps1 [e] ts1"
    by auto
  from "11.IH"(2)[OF 1 refl _ 2] ok obtain ps2 ts2 where
    b: "stack self' = stack s1 @ ps2" "pos self' = pos s1 + nleaves ts2" "builds_children ps2 es ts2"
    by auto
  have "stack self' = stack self @ (ps1 @ ps2)" using a b by simp
  moreover have "pos self' = pos self + nleaves (ts1 @ ts2)" using a b by simp
  moreover have "builds_children (ps1 @ ps2) (e # es) (ts1 @ ts2)"
    using a(3) b(3) by (rule builds_children_append)
  ultimately show ?case by blast
next
  case (16 n production ps sv self)
  let ?s0 = "self\<lparr>stack := stack self @ [production]\<rparr>"
  from "16.prems" obtain ok s1 where 1: "match_production n production ?s0 = Return (ok, s1)"
    by (auto split: outcome.splits)
  show ?case
  proof (cases ok)
    case True
    with "16.prems" 1 have s1: "self' = s1" by simp
    from "16.IH"(1)[OF 1[unfolded True[THEN eqTrueI]]] obtain qs ts where
      a: "stack s1 = stack ?s0 @ qs" "pos s1 = pos ?s0 + nleaves ts"
         "builds_children qs (elements production) ts" by auto
    have "stack self' = stack self @ (production # qs)" using a s1 by simp
    moreover have "pos self' = pos self + nleaves [Node production ts]"
      using a s1 by (simp add: nleaves_def)
    moreover have "builds_tree (production # qs) (Node production ts)"
      using a(3) by (rule builds_tree_Node)
    ultimately show ?thesis by blast
  next
    case False
    let ?s2 = "s1\<lparr>stack := take sv (stack s1)\<rparr>"
    from False "16.prems" 1 have 2: "match_alternatives n ps sv ?s2 = Return (True, self')" by simp
    have eq: "?s2 = self"
      using failed_alternative_restores[of n production self s1] 1 False "16.prems"(2) by simp
    have "\<exists>qs t. stack self' = stack ?s2 @ qs \<and> pos self' = pos ?s2 + nleaves [t] \<and> builds_tree qs t"
    proof (rule "16.IH"(2)[OF 1 refl _ 2])
      show "\<not> ok" by fact
      show "sv = length (stack ?s2)" unfolding eq by (rule "16.prems"(2))
    qed
    then show ?thesis unfolding eq .
  qed
qed (auto split: outcome.splits)

text \<open>The token a leaf carries.\<close>

fun leaf_token :: "'u tree \<Rightarrow> Token option" where
  "leaf_token (Leaf name tok) = tok"
| "leaf_token _ = None"

lemma add_tokens_leaves:
  "length (find_leaves (t :: 'u tree)) \<le> length toks \<Longrightarrow>
     map leaf_token (find_leaves (fst (add_tokens t toks))) = map Some (take (length (find_leaves t)) toks)
     \<and> snd (add_tokens t toks) = drop (length (find_leaves t)) toks"
  "nleaves (ts :: 'u tree list) \<le> length toks \<Longrightarrow>
     map leaf_token (concat (map find_leaves (fst (add_tokens_children ts toks))))
       = map Some (take (nleaves ts) toks)
     \<and> snd (add_tokens_children ts toks) = drop (nleaves ts) toks"
proof (induction t toks and ts toks rule: add_tokens_add_tokens_children.induct)
  case (3 p children ts)
  then show ?case by (auto simp: nleaves_def split: prod.splits)
next
  case (6 c cs ts)
  obtain c' ts' where c: "add_tokens c ts = (c', ts')" by (cases "add_tokens c ts")
  obtain cs' ts'' where cs: "add_tokens_children cs ts' = (cs', ts'')"
    by (cases "add_tokens_children cs ts'")
  from "6.prems" have l1: "length (find_leaves c) \<le> length ts" by simp
  from "6.IH"(1)[OF l1] c have 1: "map leaf_token (find_leaves c') = map Some (take (length (find_leaves c)) ts)"
    "ts' = drop (length (find_leaves c)) ts" by simp_all
  from "6.prems" 1(2) have l2: "nleaves cs \<le> length ts'" by simp
  from "6.IH"(2)[OF c[symmetric] l2] cs
  have 2: "map leaf_token (concat (map find_leaves cs')) = map Some (take (nleaves cs) ts')"
    "ts'' = drop (nleaves cs) ts'" by simp_all
  have "take (length (find_leaves c) + nleaves cs) ts
        = take (length (find_leaves c)) ts @ take (nleaves cs) (drop (length (find_leaves c)) ts)"
    by (simp add: take_add)
  with c cs 1 2 show ?case by (simp add: add.commute)
qed simp_all

lemma scan_success:
  assumes "scan n (reset self toks) = Return (True, self')"
  shows "tokens self' = toks \<and>
     (\<exists>t. build_tree (stack self') 0 = Inr (t, length (stack self')) \<and> length (find_leaves t) = length toks)"
proof -
  let ?s0 = "reset self toks"
  from assms obtain start where st: "Grammar_first (grammar ?s0) = Inr start"
    by (auto simp: scan_def split: sum.splits)
  with assms have m: "match_production_element n (NonTerminal start) ?s0 = Return (True, self')"
    and la: "lookahead self' = None"
    by (auto simp: scan_def split: outcome.splits if_splits)
  from match_frame(1)[OF m] have tk: "tokens self' = toks"
    by (simp add: same_frame_def reset_def)
  from m obtain k where "n = Suc k" by (cases n) simp_all
  with m have "match_non_terminal k start ?s0 = Return (True, self')" by simp
  from match_success(4)[OF this] obtain ps t where
    a: "stack self' = stack ?s0 @ ps" "pos self' = pos ?s0 + nleaves [t]" "builds_tree ps t"
    by blast
  have "stack self' = ps" using a(1) by (simp add: reset_def)
  moreover have "build_tree ([] @ ps @ []) (length ([] :: 'a Production list)) = Inr (t, length ([] :: 'a Production list) + length ps)"
    using a(3) unfolding builds_tree_def by blast
  moreover have "length (find_leaves t) = length toks"
    using a(2) la tk by (simp add: pos_def reset_def)
  ultimately show ?thesis using tk by simp
qed

text \<open>
  On an empty token list the lookahead starts at 0 and no match can move it: a terminal
  reads \<^verbatim>\<open>tokens[0]\<close> and raises. It is never past-end, so \<^verbatim>\<open>_scan\<close> never succeeds.
\<close>

lemma empty_input_lookahead:
  "match_production_element n e self = Return (r, self') \<Longrightarrow> tokens self = [] \<Longrightarrow> lookahead self = Some 0
     \<Longrightarrow> lookahead self' = Some 0"
  "match_production n p self = Return (r, self') \<Longrightarrow> tokens self = [] \<Longrightarrow> lookahead self = Some 0
     \<Longrightarrow> lookahead self' = Some 0"
  "match_elements n es save self = Return (r, self') \<Longrightarrow> tokens self = [] \<Longrightarrow> lookahead self = Some 0
     \<Longrightarrow> save = Some 0 \<Longrightarrow> lookahead self' = Some 0"
  "match_non_terminal n N self = Return (r, self') \<Longrightarrow> tokens self = [] \<Longrightarrow> lookahead self = Some 0
     \<Longrightarrow> lookahead self' = Some 0"
  "match_alternatives n alts sv self = Return (r, self') \<Longrightarrow> tokens self = [] \<Longrightarrow> lookahead self = Some 0
     \<Longrightarrow> lookahead self' = Some 0"
proof (induction n e self and n p self and n es save self and n N self and n alts sv self
    arbitrary: r self' and r self' and r self' and r self' and r self' rule: match_induct)
  case (2 n name self)
  then show ?case by (auto simp: match_terminal_def split: sum.splits)
next
  case (11 n e es save self)
  from "11.prems"(1) obtain ok s1 where 1: "match_production_element n e self = Return (ok, s1)"
    by (auto split: outcome.splits)
  from "11.IH"(1)[OF 1 "11.prems"(2,3)] have l1: "lookahead s1 = Some 0" .
  from match_frame(1)[OF 1] have t1: "tokens s1 = []" using "11.prems"(2) by (simp add: same_frame_def)
  show ?case
  proof (cases ok)
    case False
    with "11.prems" 1 show ?thesis by auto
  next
    case True
    with "11.prems" 1 have 2: "match_elements n es save s1 = Return (r, self')" by simp
    from "11.IH"(2)[OF 1 refl _ 2 t1 l1 "11.prems"(4)] True show ?thesis by simp
  qed
next
  case (16 n production ps sv self)
  let ?s0 = "self\<lparr>stack := stack self @ [production]\<rparr>"
  from "16.prems"(1) obtain ok s1 where 1: "match_production n production ?s0 = Return (ok, s1)"
    by (auto split: outcome.splits)
  from "16.IH"(1)[OF 1] "16.prems"(2,3) have l1: "lookahead s1 = Some 0" by simp
  from match_frame(2)[OF 1] have t1: "tokens s1 = []" using "16.prems"(2) by (simp add: same_frame_def)
  show ?case
  proof (cases ok)
    case True
    with "16.prems" 1 l1 show ?thesis by auto
  next
    case False
    let ?s2 = "s1\<lparr>stack := take sv (stack s1)\<rparr>"
    from False "16.prems" 1 have 2: "match_alternatives n ps sv ?s2 = Return (r, self')" by simp
    from "16.IH"(2)[OF 1 refl _ 2] False t1 l1 show ?thesis by simp
  qed
qed (auto split: outcome.splits)

lemma parse_empty_tokens_never_true:
  assumes "tokenize (lexer self) string = Inr []"
  shows "parse n self string \<noteq> Return (True, self')"
proof
  assume p: "parse n self string = Return (True, self')"
  with assms obtain s1 where sc: "scan n (reset self []) = Return (True, s1)"
    by (auto simp: parse_def split: outcome.splits if_splits)
  then obtain start where m: "match_production_element n (NonTerminal start) (reset self []) = Return (True, s1)"
    and la: "lookahead s1 = None"
    by (auto simp: scan_def split: sum.splits outcome.splits if_splits)
  from empty_input_lookahead(1)[OF m] have "lookahead s1 = Some 0" by (simp add: reset_def)
  with la show False by simp
qed

text \<open>The lexer treats the input as if its escape characters had been deleted.\<close>

lemma tokenize_loop_drops_escape:
  "tokenize_loop cs string toks = tokenize_loop cs (filter (\<lambda>c. [c] \<noteq> escape_character cs) string) toks"
  by (induction cs string toks rule: tokenize_loop.induct) auto

section \<open>Parser: claims\<close>

text \<open>Reading a result off an outcome; token lists used as concrete inputs.\<close>

definition is_failure :: "(bool \<times> 'u Parser) outcome \<Rightarrow> bool" where
  "is_failure r = (case r of Return (ok, s) \<Rightarrow> \<not> ok | _ \<Rightarrow> False)"

definition is_success :: "(bool \<times> 'u Parser) outcome \<Rightarrow> bool" where
  "is_success r = (case r of Return (ok, s) \<Rightarrow> ok | _ \<Rightarrow> False)"

lemma is_failureD: "is_failure r \<Longrightarrow> \<exists>s. r = Return (False, s)"
  by (auto simp: is_failure_def split: outcome.splits)

lemma is_successD: "is_success r \<Longrightarrow> \<exists>s. r = Return (True, s)"
  by (auto simp: is_success_def split: outcome.splits)

text \<open>
  The regex parser in the middle of a scan: the lookahead at the second token and one
  production on the stack.
\<close>

definition ab_plus_tokens :: "Token list" where
  "ab_plus_tokens =
     [Token_init ''char'' (Some ''a''), Token_init ''char'' (Some ''b''), Token_init ''+'' None]"

definition a_star_tokens :: "Token list" where
  "a_star_tokens = [Token_init ''char'' (Some ''a''), Token_init ''*'' None]"

definition mid_state :: "Token list \<Rightarrow> Nfa Parser" where
  "mid_state toks =
     (reset regex_parser toks)\<lparr>lookahead := Some 1, stack := [regex_productions UNION ! 1]\<rparr>"

text \<open>The number of productions on the stack of a result.\<close>

definition stack_length :: "(bool \<times> 'u Parser) outcome \<Rightarrow> nat option" where
  "stack_length r = (case r of Return (ok, s) \<Rightarrow> Some (length (stack s)) | _ \<Rightarrow> None)"

text \<open>A successful result whose lookahead is \<open>la\<close>.\<close>

definition advances_to :: "(bool \<times> 'u Parser) outcome \<Rightarrow> nat option \<Rightarrow> bool" where
  "advances_to r la = (case r of Return (ok, s) \<Rightarrow> ok \<and> lookahead s = la | _ \<Rightarrow> False)"

text \<open>
  Claim C5. Failure is state-restoring, and the alternatives are tried in declaration
  order with the first success returned. A production that fails leaves the lookahead at
  the value it had at the entry of the production. When an alternative fails (the
  production was pushed and its match failed), truncating the stack to the length saved
  at the entry of the non-terminal gives back the state of entry. A non-terminal that
  fails has tried every alternative on that state, each has failed, and the parser is
  left as it was found. A non-terminal that succeeds returns the result of an alternative
  tried on the entry state, and every alternative declared before it has failed there.
  Conversely, when an alternative succeeds on the entry state and all alternatives
  declared before it fail there, the non-terminal returns that success, and when all
  alternatives fail the non-terminal fails, in both cases for every sufficient fuel.
\<close>

theorem failure_restores_state:
  "(match_production n p self = Return (False, self') \<longrightarrow> lookahead self' = lookahead self) \<and>
   (match_production n p (self\<lparr>stack := stack self @ [p]\<rparr>) = Return (False, self') \<longrightarrow>
      self'\<lparr>stack := take (length (stack self)) (stack self')\<rparr> = self) \<and>
   (match_non_terminal n N self = Return (False, self') \<longrightarrow>
      self' = self \<and>
      (\<forall>j<length (productions_of (grammar self) N).
         alternative_fails self (productions_of (grammar self) N ! j))) \<and>
   (match_non_terminal n N self = Return (True, self') \<longrightarrow>
      (\<exists>i<length (productions_of (grammar self) N).
         alternative_result self (productions_of (grammar self) N ! i) (True, self')
         \<and> (\<forall>j<i. alternative_fails self (productions_of (grammar self) N ! j)))) \<and>
   (i < length (productions_of (grammar self) N)
      \<and> alternative_result self (productions_of (grammar self) N ! i) (True, self')
      \<and> (\<forall>j<i. alternative_fails self (productions_of (grammar self) N ! j)) \<longrightarrow>
      (\<exists>n0. \<forall>m\<ge>n0. match_non_terminal m N self = Return (True, self'))) \<and>
   ((\<forall>j<length (productions_of (grammar self) N).
        alternative_fails self (productions_of (grammar self) N ! j)) \<longrightarrow>
      (\<exists>n0. \<forall>m\<ge>n0. match_non_terminal m N self = Return (False, self)))"
proof (intro conjI impI)
  assume "match_production n p self = Return (False, self')"
  from match_frame(2)[OF this] show "lookahead self' = lookahead self" by simp
next
  assume "match_production n p (self\<lparr>stack := stack self @ [p]\<rparr>) = Return (False, self')"
  then show "self'\<lparr>stack := take (length (stack self)) (stack self')\<rparr> = self"
    by (rule failed_alternative_restores)
next
  assume "match_non_terminal n N self = Return (False, self')"
  from match_frame(4)[OF this] show "self' = self" by simp
next
  assume a: "match_non_terminal n N self = Return (False, self')"
  then obtain m where "n = Suc m" by (cases n) simp_all
  with a have "match_alternatives m (productions_of (grammar self) N) (length (stack self)) self
     = Return (False, self')" by simp
  from alternatives_fail_all[OF this refl]
  show "\<forall>j<length (productions_of (grammar self) N).
         alternative_fails self (productions_of (grammar self) N ! j)" .
next
  assume a: "match_non_terminal n N self = Return (True, self')"
  then obtain m where "n = Suc m" by (cases n) simp_all
  with a have "match_alternatives m (productions_of (grammar self) N) (length (stack self)) self
     = Return (True, self')" by simp
  from alternatives_order[OF this refl]
  show "\<exists>i<length (productions_of (grammar self) N).
         alternative_result self (productions_of (grammar self) N ! i) (True, self')
         \<and> (\<forall>j<i. alternative_fails self (productions_of (grammar self) N ! j))"
    unfolding alternative_fails_def alternative_result_def by blast
next
  assume a: "i < length (productions_of (grammar self) N)
      \<and> alternative_result self (productions_of (grammar self) N ! i) (True, self')
      \<and> (\<forall>j<i. alternative_fails self (productions_of (grammar self) N ! j))"
  then obtain k where
    "match_alternatives k (productions_of (grammar self) N) (length (stack self)) self
       = Return (True, self')"
    using alternatives_first_success[OF refl, of i "productions_of (grammar self) N" self self']
    by blast
  then show "\<exists>n0. \<forall>m\<ge>n0. match_non_terminal m N self = Return (True, self')"
    by (rule non_terminal_from_alternatives)
next
  assume "\<forall>j<length (productions_of (grammar self) N).
        alternative_fails self (productions_of (grammar self) N ! j)"
  from alternatives_all_fail[OF refl this] obtain k where
    "match_alternatives k (productions_of (grammar self) N) (length (stack self)) self
       = Return (False, self)" by blast
  then show "\<exists>n0. \<forall>m\<ge>n0. match_non_terminal m N self = Return (False, self)"
    by (rule non_terminal_from_alternatives)
qed

lemma alternative_failsI:
  assumes "is_failure (match_production k p (self\<lparr>stack := stack self @ [p]\<rparr>))"
  shows "alternative_fails self p"
proof -
  from is_failureD[OF assms] obtain s
    where "match_production k p (self\<lparr>stack := stack self @ [p]\<rparr>) = Return (False, s)" by blast
  then have "alternative_result self p (False, s)" unfolding alternative_result_def by (rule exI)
  then show ?thesis unfolding alternative_fails_def by (rule exI)
qed

lemma regex_productions_lengths:
  "length (regex_productions STAR) = 4" "length (regex_productions ITEM) = 2"
  by (simp_all add: regex_productions_def STAR_def ITEM_def UNION_def CONCAT_def)

text \<open>
  On the tokens of \<^verbatim>\<open>ab+\<close> the production
  \<^verbatim>\<open>STAR -> ITEM '*'\<close> fails after ITEM has advanced the lookahead from 1 to 2, and the
  lookahead is back at 1; tried as an alternative it leaves three productions on the
  stack, which the truncation cuts back to the one of entry; the first two alternatives
  of STAR fail and the third is returned. On the tokens of \<^verbatim>\<open>a*\<close> both alternatives
  of ITEM fail at the second token and ITEM fails.
\<close>

lemma mid_state_productions:
  "productions_of (grammar (mid_state toks)) N = regex_productions N"
  by (simp add: mid_state_def reset_def regex_parser_def Parser_init_def regex_grammar_def)

lemma mid_state_stack: "stack (mid_state toks) = [regex_productions UNION ! 1]"
  by (simp add: mid_state_def)

lemma mid_state_lookahead: "lookahead (mid_state toks) = Some 1"
  by (simp add: mid_state_def)

theorem failure_restores_state_witness:
  "\<exists>s1 s2 s4.
     advances_to (match_production_element 9 (NonTerminal ITEM) (mid_state ab_plus_tokens)) (Some 2)
     \<and> match_production 9 (regex_productions STAR ! 0) (mid_state ab_plus_tokens)
         = Return (False, s1)
     \<and> lookahead s1 = Some 1
     \<and> match_production 9 (regex_productions STAR ! 0)
          ((mid_state ab_plus_tokens)
             \<lparr>stack := [regex_productions UNION ! 1, regex_productions STAR ! 0]\<rparr>)
         = Return (False, s2)
     \<and> length (stack s2) = 3
     \<and> s2\<lparr>stack := take 1 (stack s2)\<rparr> = mid_state ab_plus_tokens
     \<and> match_non_terminal 9 ITEM (mid_state a_star_tokens)
         = Return (False, mid_state a_star_tokens)
     \<and> alternative_fails (mid_state a_star_tokens) (regex_productions ITEM ! 0)
     \<and> alternative_fails (mid_state a_star_tokens) (regex_productions ITEM ! 1)
     \<and> alternative_fails (mid_state ab_plus_tokens) (regex_productions STAR ! 0)
     \<and> alternative_fails (mid_state ab_plus_tokens) (regex_productions STAR ! 1)
     \<and> alternative_result (mid_state ab_plus_tokens) (regex_productions STAR ! 2) (True, s4)
     \<and> match_non_terminal 20 STAR (mid_state ab_plus_tokens) = Return (True, s4)
     \<and> (\<exists>n0. \<forall>m\<ge>n0. match_non_terminal m STAR (mid_state ab_plus_tokens) = Return (True, s4))
     \<and> (\<exists>n0. \<forall>m\<ge>n0. match_non_terminal m ITEM (mid_state a_star_tokens)
            = Return (False, mid_state a_star_tokens))"
proof -
  let ?a = "mid_state ab_plus_tokens"
  let ?b = "mid_state a_star_tokens"
  let ?p = "regex_productions STAR ! 0"
  have adv: "advances_to (match_production_element 9 (NonTerminal ITEM) ?a) (Some 2)" by code_simp
  have "is_failure (match_production 9 ?p ?a)" by code_simp
  then obtain s1 where 1: "match_production 9 ?p ?a = Return (False, s1)"
    by (auto dest: is_failureD)
  have "is_failure (match_production 9 ?p (?a\<lparr>stack := stack ?a @ [?p]\<rparr>))" by code_simp
  then obtain s2 where 2: "match_production 9 ?p (?a\<lparr>stack := stack ?a @ [?p]\<rparr>) = Return (False, s2)"
    by (auto dest: is_failureD)
  have "stack_length (match_production 9 ?p (?a\<lparr>stack := stack ?a @ [?p]\<rparr>)) = Some 3"
    by code_simp
  with 2 have l3: "length (stack s2) = 3" by (simp add: stack_length_def)
  have "is_failure (match_non_terminal 9 ITEM ?b)" by code_simp
  then obtain s3 where 3: "match_non_terminal 9 ITEM ?b = Return (False, s3)"
    by (auto dest: is_failureD)
  have "is_success (match_non_terminal 20 STAR ?a)" by code_simp
  then obtain s4 where 4: "match_non_terminal 20 STAR ?a = Return (True, s4)"
    by (auto dest: is_successD)
  note T1 = failure_restores_state[where n = 9 and p = ?p and self = ?a and self' = s1
      and N = STAR and i = 0]
  from T1[THEN conjunct1, THEN mp, OF 1]
  have c1: "lookahead s1 = Some 1" by (simp add: mid_state_lookahead)
  note T2 = failure_restores_state[where n = 9 and p = ?p and self = ?a and self' = s2
      and N = STAR and i = 0]
  from T2[THEN conjunct2, THEN conjunct1, THEN mp, OF 2]
  have c2: "s2\<lparr>stack := take 1 (stack s2)\<rparr> = ?a" by (simp add: mid_state_stack)
  note T3 = failure_restores_state[where n = 9 and p = ?p and self = ?b and self' = s3
      and N = ITEM and i = 0]
  from T3[THEN conjunct2, THEN conjunct2, THEN conjunct1, THEN mp, OF 3]
  have c3: "s3 = ?b" "\<forall>j<length (regex_productions ITEM). alternative_fails ?b (regex_productions ITEM ! j)"
    by (simp_all add: mid_state_productions)
  from c3(2) have c3': "alternative_fails ?b (regex_productions ITEM ! 0)"
    "alternative_fails ?b (regex_productions ITEM ! 1)"
    by (simp_all add: regex_productions_lengths)
  note T4 = failure_restores_state[where n = 20 and p = ?p and self = ?a and self' = s4
      and N = STAR and i = 2]
  have f0: "alternative_fails ?a (regex_productions STAR ! 0)"
  proof -
    have "is_failure (match_production 9 (regex_productions STAR ! 0)
        (?a\<lparr>stack := stack ?a @ [regex_productions STAR ! 0]\<rparr>))" by code_simp
    then show ?thesis by (rule alternative_failsI)
  qed
  have f1: "alternative_fails ?a (regex_productions STAR ! 1)"
  proof -
    have "is_failure (match_production 9 (regex_productions STAR ! 1)
        (?a\<lparr>stack := stack ?a @ [regex_productions STAR ! 1]\<rparr>))" by code_simp
    then show ?thesis by (rule alternative_failsI)
  qed
  have f01: "\<forall>j<2. alternative_fails ?a (productions_of (grammar ?a) STAR ! j)"
    using f0 f1 by (auto simp: less_Suc_eq numeral_2_eq_2 mid_state_productions)
  have l2: "2 < length (productions_of (grammar ?a) STAR)"
    by (simp add: mid_state_productions regex_productions_lengths)
  have s2: "alternative_result ?a (regex_productions STAR ! 2) (True, s4)"
  proof -
    have "is_success (match_production 9 (regex_productions STAR ! 2)
        (?a\<lparr>stack := stack ?a @ [regex_productions STAR ! 2]\<rparr>))" by code_simp
    then obtain s where s: "match_production 9 (regex_productions STAR ! 2)
        (?a\<lparr>stack := stack ?a @ [regex_productions STAR ! 2]\<rparr>) = Return (True, s)"
      by (auto dest: is_successD)
    have ar: "alternative_result ?a (productions_of (grammar ?a) STAR ! 2) (True, s)"
      unfolding alternative_result_def mid_state_productions using s by blast
    note T = failure_restores_state[where n = 20 and p = ?p and self = ?a and self' = s
      and N = STAR and i = 2]
    from T[THEN conjunct2, THEN conjunct2, THEN conjunct2, THEN conjunct2, THEN conjunct1,
        THEN mp, OF conjI[OF l2 conjI[OF ar f01]]]
    obtain n0 where "\<forall>m\<ge>n0. match_non_terminal m STAR ?a = Return (True, s)" by blast
    then have "match_non_terminal (max n0 20) STAR ?a = Return (True, s)" by simp
    moreover have "match_non_terminal (max n0 20) STAR ?a = Return (True, s4)"
      by (rule fuel_mono(4)[OF 4]) simp_all
    ultimately have "s = s4" by simp
    with ar show ?thesis by (simp add: mid_state_productions)
  qed
  have ar4: "alternative_result ?a (productions_of (grammar ?a) STAR ! 2) (True, s4)"
    using s2 by (simp add: mid_state_productions)
  from T4[THEN conjunct2, THEN conjunct2, THEN conjunct2, THEN conjunct2, THEN conjunct1,
      THEN mp, OF conjI[OF l2 conjI[OF ar4 f01]]]
  have c5: "\<exists>n0. \<forall>m\<ge>n0. match_non_terminal m STAR ?a = Return (True, s4)" .
  have all: "\<forall>j<length (productions_of (grammar ?b) ITEM).
      alternative_fails ?b (productions_of (grammar ?b) ITEM ! j)"
    using c3(2) by (simp add: mid_state_productions)
  from T3[THEN conjunct2, THEN conjunct2, THEN conjunct2, THEN conjunct2, THEN conjunct2,
      THEN mp, OF all]
  have c6: "\<exists>n0. \<forall>m\<ge>n0. match_non_terminal m ITEM ?b = Return (False, ?b)" .
  have e2: "match_production 9 ?p
      (?a\<lparr>stack := [regex_productions UNION ! 1, regex_productions STAR ! 0]\<rparr>) = Return (False, s2)"
    using 2 by (simp add: mid_state_stack)
  have e3: "match_non_terminal 9 ITEM ?b = Return (False, ?b)" using 3 c3(1) by simp
  show ?thesis
    by (rule exI[of _ s1], rule exI[of _ s2], rule exI[of _ s4], intro conjI)
       (rule adv 1 c1 e2 l3 c2 e3 c3' f0 f1 s2 4 c5 c6)+
qed

text \<open>
  Claim C6. When \<^verbatim>\<open>parse\<close> returns True, the parse tree has as many leaves as the lexer
  produced tokens, and the leaves in pre-order carry the tokens in order.
\<close>

theorem leaves_carry_tokens:
  assumes "parse n self string = Return (True, self')"
  shows "\<exists>pt toks. parse_tree self' = Some pt \<and> tokenize (lexer self) string = Inr toks
           \<and> leaves pt = find_leaves (root pt)
           \<and> length (leaves pt) = length toks
           \<and> map leaf_token (leaves pt) = map Some toks"
proof -
  from assms obtain toks where tk: "tokenize (lexer self) string = Inr toks"
    by (auto simp: parse_def split: sum.splits)
  with assms obtain s1 where sc: "scan n (reset self toks) = Return (True, s1)"
    by (auto simp: parse_def split: outcome.splits if_splits)
  with assms tk obtain pt where pt: "ParseTree_init (tokens s1) (stack s1) = Inr pt"
    and s': "self' = s1\<lparr>parse_tree := Some pt, parser_value := tree_value pt\<rparr>"
    by (auto simp: parse_def split: sum.splits)
  from scan_success[OF sc] obtain t where
    t: "tokens s1 = toks" "build_tree (stack s1) 0 = Inr (t, length (stack s1))"
       "length (find_leaves t) = length toks" by blast
  let ?r = "fst (add_tokens t toks)"
  from pt t have rt: "root pt = ?r" "leaves pt = find_leaves ?r"
    by (auto simp: ParseTree_init_def Let_def split: tree.splits if_splits sum.splits)
  from add_tokens_leaves(1)[of t toks] t(3)
  have "map leaf_token (find_leaves ?r) = map Some toks" by simp
  moreover from this have "length (find_leaves ?r) = length toks"
    by (metis length_map)
  ultimately show ?thesis using tk rt s' by simp
qed

text \<open>The regex parser on the pattern \<^verbatim>\<open>a*|b\<close>: four tokens, four leaves.\<close>

theorem leaves_carry_tokens_witness:
  "\<exists>self' pt. parse 40 regex_parser ''a*|b'' = Return (True, self') \<and> parse_tree self' = Some pt
     \<and> tokenize (lexer regex_parser) ''a*|b''
         = Inr [Token_init ''char'' (Some ''a''), Token_init ''*'' None, Token_init ''|'' None,
                Token_init ''char'' (Some ''b'')]
     \<and> leaves pt = find_leaves (root pt)
     \<and> length (leaves pt) = 4
     \<and> map leaf_token (leaves pt)
         = [Some (Token_init ''char'' (Some ''a'')), Some (Token_init ''*'' None),
            Some (Token_init ''|'' None), Some (Token_init ''char'' (Some ''b''))]"
proof -
  have "is_success (parse 40 regex_parser ''a*|b'')" by code_simp
  then obtain self' where p: "parse 40 regex_parser ''a*|b'' = Return (True, self')"
    by (auto dest: is_successD)
  have tk: "tokenize (lexer regex_parser) ''a*|b''
         = Inr [Token_init ''char'' (Some ''a''), Token_init ''*'' None, Token_init ''|'' None,
                Token_init ''char'' (Some ''b'')]" by code_simp
  from leaves_carry_tokens[OF p] obtain pt toks where
    a: "parse_tree self' = Some pt" "tokenize (lexer regex_parser) ''a*|b'' = Inr toks"
       "leaves pt = find_leaves (root pt)" "length (leaves pt) = length toks"
       "map leaf_token (leaves pt) = map Some toks" by blast
  from a(2) tk have toks: "toks = [Token_init ''char'' (Some ''a''), Token_init ''*'' None,
      Token_init ''|'' None, Token_init ''char'' (Some ''b'')]" by simp
  have l4: "length (leaves pt) = 4" using a(4) by (simp add: toks)
  have m4: "map leaf_token (leaves pt)
         = [Some (Token_init ''char'' (Some ''a'')), Some (Token_init ''*'' None),
            Some (Token_init ''|'' None), Some (Token_init ''char'' (Some ''b''))]"
    using a(5) by (simp add: toks)
  show ?thesis
    by (rule exI[of _ self'], rule exI[of _ pt], intro conjI) (rule p a(1) tk a(3) l4 m4)+
qed

text \<open>
  Claim C3 says that after a successful parse the return value is the bottom-up reduction
  of the tree, also when the root production carries no descriptor. The code on the regex
  grammar and the pattern \<^verbatim>\<open>a\<close>, whose root production \<^verbatim>\<open>UNION -> CONCAT\<close> has no
  descriptor: \<^verbatim>\<open>parse\<close> returns True and the return value is None, while the reduction
  of the tree is the NFA of \<^verbatim>\<open>Nfa.char("a")\<close>; \<^verbatim>\<open>compile\<close> then raises AttributeError.
\<close>

theorem root_without_descriptor_not_reduced:
  "(case parse 40 regex_parser ''a'' of
      Return (ok, self') \<Rightarrow>
        ok \<and> parser_value self' = None \<and>
        (case parse_tree self' of
           None \<Rightarrow> False
         | Some pt \<Rightarrow>
             (case tree_return_value (root pt) of
                Inr (Obj nfa) \<Rightarrow> as_list (table nfa) = [[(''a'', {1})], []]
              | _ \<Rightarrow> False))
    | _ \<Rightarrow> False)
   \<and> (case compile 40 ''a'' of Raise e \<Rightarrow> e = AttributeError | _ \<Rightarrow> False)"
  by code_simp

text \<open>A grammar whose start symbol has the single production epsilon.\<close>

definition epsilon_grammar :: "Nfa Grammar" where
  "epsilon_grammar =
     \<lparr>non_terminals = [0],
      productions_of = (\<lambda>N. if N = 0 then [Production_init [Epsilon] None] else [])\<rparr>"

text \<open>
  Claim C4 says that \<^verbatim>\<open>parse\<close> on the empty string returns False without raising, and
  True when the start symbol derives epsilon. The code with the regex grammar raises
  IndexError, and with a start symbol that derives epsilon it returns False.
\<close>

theorem parse_empty_input:
  "(case parse 40 regex_parser [] of Raise e \<Rightarrow> e = IndexError | _ \<Rightarrow> False)
   \<and> (case parse 40 (Parser_init epsilon_grammar regex_lexer) [] of
         Return (ok, self') \<Rightarrow> \<not> ok
       | _ \<Rightarrow> False)"
  by code_simp

text \<open>
  Claim C8 says that an escape followed by a character \<open>c\<close> is one token of the general
  class with lexeme \<open>c\<close>, also for a special \<open>c\<close>. The regex lexer on \<^verbatim>\<open>\*\<close> yields the
  special token \<^verbatim>\<open>*\<close>, and on two escape characters no token at all; only for an
  ordinary character does the claim hold.
\<close>

theorem escape_does_not_protect_special:
  "tokenize regex_lexer [CHR 0x5C, CHR ''*''] = Inr [\<lparr>category = ''*'', lexeme = ''*''\<rparr>]
   \<and> tokenize regex_lexer [CHR 0x5C, CHR 0x5C] = Inr []
   \<and> tokenize regex_lexer [CHR 0x5C, CHR ''a''] = Inr [\<lparr>category = ''char'', lexeme = ''a''\<rparr>]"
  by code_simp

text \<open>
  Claim C1 says that the compiled DFA and the NFA it was built from give the same answer
  on every string. For the pattern \<^verbatim>\<open>a*|b\<close> and the empty string the NFA answers False
  and the DFA answers True.
\<close>

theorem compiled_dfa_differs_from_nfa_on_empty_string:
  "(case NFA_of 40 ''a*|b'' of Return nfa \<Rightarrow> Nfa_match nfa [] = Inr False | _ \<Rightarrow> False)
   \<and> (case compile 40 ''a*|b'' of Return dfa \<Rightarrow> Dfa_match dfa [] | _ \<Rightarrow> False)"
  by code_simp

end
